theory Spec2Isabelle
  imports Complex_Main "HOL-Library.Word" "HOL-Library.Sublist"
begin

section \<open>Values, exceptions and the external services\<close>

text \<open>
  The module \<^verbatim>\<open>pipeline_scripts/bedrock_models.py\<close> holds one class, \<^verbatim>\<open>Pipeline\<close>.
  Its dictionaries are modelled as records whose optional keys are \<open>option\<close> fields:
  \<^verbatim>\<open>d["k"]\<close> on a missing key raises \<^verbatim>\<open>KeyError\<close>, \<^verbatim>\<open>d.get("k")\<close> gives \<^verbatim>\<open>None\<close>.
  Scalar values that the code only passes on (sampling parameters, the system message,
  a message's non-list content) are values of \<open>pyval\<close>.
\<close>

datatype pyval =
    PNone
  | PBool bool
  | PInt int
  | PFloat real
  | PStr string
  | PDict "(string \<times> pyval) list"

text \<open>Python's truth value of an object, as used by \<^verbatim>\<open>if x\<close> and \<^verbatim>\<open>x if x else y\<close>.\<close>

fun truthy :: "pyval \<Rightarrow> bool" where
  "truthy PNone = False"
| "truthy (PBool b) = b"
| "truthy (PInt i) = (i \<noteq> 0)"
| "truthy (PFloat r) = (r \<noteq> 0)"
| "truthy (PStr s) = (s \<noteq> [])"
| "truthy (PDict kvs) = (kvs \<noteq> [])"

text \<open>An exception: its class name and the text \<^verbatim>\<open>str(e)\<close> that \<^verbatim>\<open>f"{e}"\<close> prints.\<close>

datatype exn = Exn (exn_class: string) (exn_str: string)

definition KeyError :: "string \<Rightarrow> exn" where
  "KeyError k = Exn ''KeyError'' ([CHR 0x27] @ k @ [CHR 0x27])"

definition NameError :: "string \<Rightarrow> exn" where
  "NameError v = Exn ''NameError'' (''name '' @ [CHR 0x27] @ v @ [CHR 0x27] @ '' is not defined'')"

definition UnboundLocalError :: "string \<Rightarrow> exn" where
  "UnboundLocalError v = Exn ''UnboundLocalError''
     (''cannot access local variable '' @ [CHR 0x27] @ v @ [CHR 0x27]
        @ '' where it is not associated with a value'')"

definition AttributeError :: "string \<Rightarrow> string \<Rightarrow> exn" where
  "AttributeError ty attr = Exn ''AttributeError''
     ([CHR 0x27] @ ty @ [CHR 0x27] @ '' object has no attribute '' @ [CHR 0x27] @ attr @ [CHR 0x27])"

definition IndexError :: "string \<Rightarrow> exn" where
  "IndexError msg = Exn ''IndexError'' msg"

definition ValueError :: "string \<Rightarrow> exn" where
  "ValueError msg = Exn ''ValueError'' msg"

type_synonym bytes = "8 word list"

subsection \<open>Catalog data\<close>

text \<open>
  A catalog entry is the dictionary \<^verbatim>\<open>{"id", "name", "region", "description"}\<close>; the two
  failure sentinels are built without the key \<^verbatim>\<open>"description"\<close>.
\<close>

record model_entry =
  entry_id :: string
  entry_name :: string
  entry_region :: string
  entry_description :: "string option"

text \<open>
  One element of \<^verbatim>\<open>response["modelSummaries"]\<close>. \<open>lifecycle_status\<close> is
  \<^verbatim>\<open>model.get("modelLifecycle", {}).get("status")\<close>.
\<close>

record model_summary =
  modelId :: "string option"
  modelName :: "string option"
  lifecycle_status :: "string option"

text \<open>One element of \<^verbatim>\<open>response.get("profiles", [])\<close>.\<close>

record profile_summary =
  profile_modelId :: "string option"
  profile_modelName :: "string option"
  profile_region :: "string option"
  profile_status :: "string option"

text \<open>The four clients built by \<^verbatim>\<open>__init__\<close>.\<close>

datatype bedrock_client = East_bedrock | West_bedrock

datatype runtime_client = East_bedrock_runtime | West_bedrock_runtime

subsection \<open>Chat messages and the request payload\<close>

record image_url =
  url :: "string option"

text \<open>An item of a mixed content list: \<^verbatim>\<open>item["type"]\<close>, \<^verbatim>\<open>item["text"]\<close>, \<^verbatim>\<open>item["image_url"]\<close>.\<close>

record content_item =
  item_type :: "pyval option"
  item_text :: "pyval option"
  item_image_url :: "image_url option"

datatype content = ContentList "content_item list" | ContentValue pyval

record message =
  msg_role :: "string option"
  msg_content :: "content option"

text \<open>
  A processed content block: \<^verbatim>\<open>{"text": v}\<close> or
  \<^verbatim>\<open>{"image": {"format": f, "source": {"bytes": b}}}\<close>.
\<close>

datatype content_block = TextBlock pyval | ImageBlock string bytes

record processed_message =
  role :: string
  content :: "content_block list"

text \<open>The options map \<^verbatim>\<open>body\<close>, read with \<^verbatim>\<open>body.get\<close>.\<close>

record body =
  temperature :: "pyval option"
  top_k :: "pyval option"
  top_p :: "pyval option"
  stream :: "pyval option"

text \<open>
  The payload dictionary. The keys \<^verbatim>\<open>"system"\<close> and \<^verbatim>\<open>"additionalModelRequestFields"\<close> can be
  deleted, so they are optional; \<open>system\<close> holds the text of the single block
  \<^verbatim>\<open>[{'text': ...}]\<close>, \<open>inferenceConfig\<close> the value under \<^verbatim>\<open>"temperature"\<close>,
  \<open>additionalModelRequestFields\<close> the values under \<^verbatim>\<open>"top_k"\<close> and \<^verbatim>\<open>"top_p"\<close>.
\<close>

record payload =
  payload_modelId :: string
  messages :: "processed_message list"
  system :: "pyval option"
  inferenceConfig :: pyval
  additionalModelRequestFields :: "(pyval \<times> pyval) option"

subsection \<open>Transport responses\<close>

text \<open>
  \<^verbatim>\<open>response['output']['message']['content']\<close> of a blocking call (\<open>None\<close> when one of the
  three keys is missing), each block with its optional \<^verbatim>\<open>'text'\<close>.
\<close>

record converse_response =
  output_message_content :: "string option list option"

text \<open>
  A streamed event either holds \<^verbatim>\<open>"contentBlockDelta"\<close> (with the optional
  \<^verbatim>\<open>["delta"]["text"]\<close>) or is another event. \<open>stream_events\<close> is
  \<^verbatim>\<open>streaming_response["stream"]\<close>: the events delivered, then the exception the
  transport raises during iteration, if any.
\<close>

datatype chunk = ContentBlockDelta "string option" | OtherChunk

record converse_stream_response =
  stream_events :: "(chunk list \<times> exn option) option"

subsection \<open>The collaborators\<close>

text \<open>
  Everything outside the class: the three listing calls of the two \<^verbatim>\<open>bedrock\<close> clients,
  \<^verbatim>\<open>requests.get(u).content\<close>, \<^verbatim>\<open>base64.b64decode\<close>, the two invocations of the runtime
  clients and \<^verbatim>\<open>utils.pipelines.main.pop_system_message\<close>. Each either raises or returns.
\<close>

record world =
  east_list_foundation_models :: "exn + model_summary list option"
  east_list_inference_profiles :: "exn + profile_summary list option"
  west_list_foundation_models :: "exn + model_summary list option"
  requests_get_content :: "string \<Rightarrow> exn + bytes"
  b64decode :: "string \<Rightarrow> exn + bytes"
  converse :: "runtime_client \<Rightarrow> payload \<Rightarrow> exn + converse_response"
  converse_stream :: "runtime_client \<Rightarrow> payload \<Rightarrow> exn + converse_stream_response"
  pop_system_message :: "message list \<Rightarrow> exn + pyval \<times> message list"

text \<open>The calls a run makes to the collaborators, in order.\<close>

datatype call =
    ListFoundationModels bedrock_client
  | ListInferenceProfiles bedrock_client
  | RequestsGet string
  | B64Decode string
  | Converse runtime_client payload
  | ConverseStream runtime_client payload

section \<open>The model catalog\<close>

subsection \<open>\<^verbatim>\<open>get_east_models\<close>\<close>

text \<open>
  The list comprehension over \<^verbatim>\<open>response["modelSummaries"]\<close>: the filter is evaluated
  first, then the dictionary display, key by key; an exception ends the comprehension.
\<close>

fun east_comprehension :: "model_summary list \<Rightarrow> exn + model_entry list" where
  "east_comprehension [] = Inr []"
| "east_comprehension (model # rest) =
     (if lifecycle_status model = Some ''ACTIVE'' then
        (case modelId model of
           None \<Rightarrow> Inl (KeyError ''modelId'')
         | Some mid \<Rightarrow>
            (case modelName model of
               None \<Rightarrow> Inl (KeyError ''modelName'')
             | Some nm \<Rightarrow>
                (case east_comprehension rest of
                   Inl e \<Rightarrow> Inl e
                 | Inr models \<Rightarrow>
                     Inr (\<lparr>entry_id = mid, entry_name = nm, entry_region = ''us-east-1'',
                           entry_description = Some (nm @ '' - us-east-1'')\<rparr> # models))))
      else east_comprehension rest)"

definition east_sentinel :: model_entry where
  "east_sentinel = \<lparr>entry_id = ''error'', entry_name = ''Error fetching east models'',
                     entry_region = ''us-east-1'', entry_description = None\<rparr>"

text \<open>The body of the \<^verbatim>\<open>try\<close>.\<close>

definition east_try :: "world \<Rightarrow> exn + model_entry list" where
  "east_try w =
     (case east_list_foundation_models w of
        Inl e \<Rightarrow> Inl e
      | Inr response \<Rightarrow>
         (case response of
            None \<Rightarrow> Inl (KeyError ''modelSummaries'')
          | Some summaries \<Rightarrow> east_comprehension summaries))"

definition get_east_models :: "world \<Rightarrow> call list \<times> model_entry list" where
  "get_east_models w =
     ([ListFoundationModels East_bedrock],
      case east_try w of Inr models \<Rightarrow> models | Inl e \<Rightarrow> [east_sentinel])"

subsection \<open>\<^verbatim>\<open>get_cross_region_profiles\<close>\<close>

text \<open>
  The dictionary display of this comprehension reads \<^verbatim>\<open>model['modelName']\<close> for its
  description, and no variable \<^verbatim>\<open>model\<close> is in scope (the loop variable is
  \<^verbatim>\<open>profile\<close>; the module binds no global of that name): once the keys \<^verbatim>\<open>"id"\<close>,
  \<^verbatim>\<open>"name"\<close> and \<^verbatim>\<open>"region"\<close> are evaluated, the lookup raises \<^verbatim>\<open>NameError\<close>.
\<close>

fun cross_comprehension :: "string set \<Rightarrow> profile_summary list \<Rightarrow> exn + model_entry list" where
  "cross_comprehension east_ids [] = Inr []"
| "cross_comprehension east_ids (profile # rest) =
     (if profile_status profile = Some ''ACTIVE'' then
        (case profile_modelId profile of
           None \<Rightarrow> Inl (KeyError ''modelId'')
         | Some mid \<Rightarrow>
            if mid \<notin> east_ids then
              (case profile_modelName profile of
                 None \<Rightarrow> Inl (KeyError ''modelName'')
               | Some nm \<Rightarrow> Inl (NameError ''model''))
            else cross_comprehension east_ids rest)
      else cross_comprehension east_ids rest)"

definition cross_try :: "world \<Rightarrow> string set \<Rightarrow> exn + model_entry list" where
  "cross_try w east_ids =
     (case east_list_inference_profiles w of
        Inl e \<Rightarrow> Inl e
      | Inr response \<Rightarrow>
         cross_comprehension east_ids (case response of None \<Rightarrow> [] | Some profiles \<Rightarrow> profiles))"

definition get_cross_region_profiles :: "world \<Rightarrow> string set \<Rightarrow> call list \<times> model_entry list" where
  "get_cross_region_profiles w east_ids =
     ([ListInferenceProfiles East_bedrock],
      case cross_try w east_ids of Inr profiles \<Rightarrow> profiles | Inl e \<Rightarrow> [])"

subsection \<open>\<^verbatim>\<open>get_west_models\<close>\<close>

fun west_comprehension :: "string set \<Rightarrow> model_summary list \<Rightarrow> exn + model_entry list" where
  "west_comprehension east_ids [] = Inr []"
| "west_comprehension east_ids (model # rest) =
     (if lifecycle_status model = Some ''ACTIVE'' then
        (case modelId model of
           None \<Rightarrow> Inl (KeyError ''modelId'')
         | Some mid \<Rightarrow>
            if mid \<notin> east_ids then
              (case modelName model of
                 None \<Rightarrow> Inl (KeyError ''modelName'')
               | Some nm \<Rightarrow>
                  (case west_comprehension east_ids rest of
                     Inl e \<Rightarrow> Inl e
                   | Inr models \<Rightarrow>
                       Inr (\<lparr>entry_id = mid, entry_name = nm, entry_region = ''us-west-2'',
                             entry_description = Some (nm @ '' - us-west-2'')\<rparr> # models)))
            else west_comprehension east_ids rest)
      else west_comprehension east_ids rest)"

definition west_sentinel :: model_entry where
  "west_sentinel = \<lparr>entry_id = ''error'', entry_name = ''Error fetching west models'',
                     entry_region = ''us-west-2'', entry_description = None\<rparr>"

definition west_try :: "world \<Rightarrow> string set \<Rightarrow> exn + model_entry list" where
  "west_try w east_ids =
     (case west_list_foundation_models w of
        Inl e \<Rightarrow> Inl e
      | Inr response \<Rightarrow>
         (case response of
            None \<Rightarrow> Inl (KeyError ''modelSummaries'')
          | Some summaries \<Rightarrow> west_comprehension east_ids summaries))"

definition get_west_models :: "world \<Rightarrow> string set \<Rightarrow> call list \<times> model_entry list" where
  "get_west_models w east_ids =
     ([ListFoundationModels West_bedrock],
      case west_try w east_ids of Inr models \<Rightarrow> models | Inl e \<Rightarrow> [west_sentinel])"

subsection \<open>\<^verbatim>\<open>get_models\<close>\<close>

definition get_models :: "world \<Rightarrow> call list \<times> model_entry list" where
  "get_models w =
     (let (calls1, east_models) = get_east_models w;
          east_ids = set (map entry_id east_models);
          (calls2, cross_profiles) = get_cross_region_profiles w east_ids;
          (calls3, west_models) = get_west_models w east_ids
      in (calls1 @ calls2 @ calls3, east_models @ cross_profiles @ west_models))"

section \<open>Region routing\<close>

text \<open>\<^verbatim>\<open>get_model_region\<close> scans \<^verbatim>\<open>self.pipelines\<close> and returns at the first match.\<close>

fun get_model_region :: "model_entry list \<Rightarrow> string \<Rightarrow> string" where
  "get_model_region [] model_id = ''us-east-1''"
| "get_model_region (model # rest) model_id =
     (if entry_id model = model_id then entry_region model
      else get_model_region rest model_id)"

definition get_runtime_client :: "string \<Rightarrow> runtime_client" where
  "get_runtime_client region =
     (if region = ''us-east-1'' then East_bedrock_runtime else West_bedrock_runtime)"

section \<open>Images\<close>

text \<open>
  \<^verbatim>\<open>img_stream\<close> is an \<^verbatim>\<open>io.BytesIO\<close> object on the inline path and the \<^verbatim>\<open>bytes\<close> object
  \<^verbatim>\<open>requests.get(...).content\<close> on the remote path; only the first has a method
  \<^verbatim>\<open>read\<close>.
\<close>

datatype img_stream = BytesIO bytes | RawBytes bytes

definition read :: "img_stream \<Rightarrow> exn + bytes" where
  "read s = (case s of BytesIO b \<Rightarrow> Inr b | RawBytes b \<Rightarrow> Inl (AttributeError ''bytes'' ''read''))"

text \<open>\<^verbatim>\<open>s.split(sep)\<close> for a one-character separator.\<close>

fun str_split :: "char \<Rightarrow> string \<Rightarrow> string list" where
  "str_split sep [] = [[]]"
| "str_split sep (c # cs) =
     (if c = sep then [] # str_split sep cs
      else (case str_split sep cs of
              [] \<Rightarrow> [[c]]
            | piece # pieces \<Rightarrow> (c # piece) # pieces))"

text \<open>The \<^verbatim>\<open>return\<close> of \<^verbatim>\<open>process_image\<close>: the format first, then \<^verbatim>\<open>img_stream.read()\<close>.\<close>

definition image_block :: "string \<Rightarrow> img_stream \<Rightarrow> exn + content_block" where
  "image_block u s =
     (let format = (if suffix ''.png'' u then ''png'' else ''jpeg'')
      in case read s of Inl e \<Rightarrow> Inl e | Inr b \<Rightarrow> Inr (ImageBlock format b))"

definition process_image :: "world \<Rightarrow> image_url \<Rightarrow> call list \<times> (exn + content_block)" where
  "process_image w img =
     (case url img of
        None \<Rightarrow> ([], Inl (KeyError ''url''))
      | Some u \<Rightarrow>
         if prefix ''data:image'' u then
           (if CHR '','' \<in> set u then
              (case str_split CHR '','' u of
                 _ # base64_string # _ \<Rightarrow>
                   ([B64Decode base64_string],
                    case b64decode w base64_string of
                      Inl e \<Rightarrow> Inl e
                    | Inr image_data \<Rightarrow> image_block u (BytesIO image_data))
               | _ \<Rightarrow> ([], Inl (IndexError ''list index out of range'')))
            else ([], Inl (UnboundLocalError ''base64_string'')))
         else
           ([RequestsGet u],
            case requests_get_content w u of
              Inl e \<Rightarrow> Inl e
            | Inr c \<Rightarrow> image_block u (RawBytes c)))"

section \<open>Message normalization\<close>

text \<open>
  The two nested loops of \<^verbatim>\<open>pipe\<close>. The loop state is the calls made so far, the list
  being appended to and \<^verbatim>\<open>image_count\<close>, which is never reset between messages.
\<close>

fun content_loop ::
  "world \<Rightarrow> content_item list \<Rightarrow> call list \<times> content_block list \<times> nat
     \<Rightarrow> call list \<times> (exn + content_block list \<times> nat)" where
  "content_loop w [] (calls, processed_content, image_count) =
     (calls, Inr (processed_content, image_count))"
| "content_loop w (item # rest) (calls, processed_content, image_count) =
     (case item_type item of
        None \<Rightarrow> (calls, Inl (KeyError ''type''))
      | Some t \<Rightarrow>
         if t = PStr ''text'' then
           (case item_text item of
              None \<Rightarrow> (calls, Inl (KeyError ''text''))
            | Some v \<Rightarrow> content_loop w rest (calls, processed_content @ [TextBlock v], image_count))
         else if t = PStr ''image_url'' then
           (if image_count \<ge> 20 then
              (calls, Inl (ValueError ''Maximum of 20 images per API call exceeded''))
            else
              (case item_image_url item of
                 None \<Rightarrow> (calls, Inl (KeyError ''image_url''))
               | Some img \<Rightarrow>
                  (case process_image w img of
                     (c, Inl e) \<Rightarrow> (calls @ c, Inl e)
                   | (c, Inr processed_image) \<Rightarrow>
                       content_loop w rest
                         (calls @ c, processed_content @ [processed_image], image_count + 1))))
         else content_loop w rest (calls, processed_content, image_count))"

text \<open>The \<^verbatim>\<open>if\<close>/\<^verbatim>\<open>else\<close> of the outer loop's body: the content blocks of one message.\<close>

definition message_content ::
  "world \<Rightarrow> message \<Rightarrow> call list \<Rightarrow> nat \<Rightarrow> call list \<times> (exn + content_block list \<times> nat)" where
  "message_content w message calls image_count =
     (case msg_content message of
        Some (ContentList items) \<Rightarrow> content_loop w items (calls, [], image_count)
      | Some (ContentValue v) \<Rightarrow> (calls, Inr ([TextBlock v], image_count))
      | None \<Rightarrow> (calls, Inr ([TextBlock (PStr [])], image_count)))"

fun message_loop ::
  "world \<Rightarrow> message list \<Rightarrow> call list \<times> processed_message list \<times> nat
     \<Rightarrow> call list \<times> (exn + processed_message list \<times> nat)" where
  "message_loop w [] (calls, processed_messages, image_count) =
     (calls, Inr (processed_messages, image_count))"
| "message_loop w (message # rest) (calls, processed_messages, image_count) =
     (case message_content w message calls image_count of
        (calls', Inl e) \<Rightarrow> (calls', Inl e)
      | (calls', Inr (processed_content, image_count')) \<Rightarrow>
         (case msg_role message of
            None \<Rightarrow> (calls', Inl (KeyError ''role''))
          | Some r \<Rightarrow>
             message_loop w rest
               (calls',
                processed_messages @ [\<lparr>role = r, content = processed_content\<rparr>],
                image_count')))"

section \<open>Dispatch\<close>

definition get_completion ::
  "world \<Rightarrow> string \<Rightarrow> payload \<Rightarrow> string \<Rightarrow> call list \<times> (exn + string)" where
  "get_completion w model_id payload region =
     (let client = get_runtime_client region
      in ([Converse client payload],
          case converse w client payload of
            Inl e \<Rightarrow> Inl e
          | Inr response \<Rightarrow>
             (case output_message_content response of
                None \<Rightarrow> Inl (KeyError ''output'')
              | Some [] \<Rightarrow> Inl (IndexError ''list index out of range'')
              | Some (None # _) \<Rightarrow> Inl (KeyError ''text'')
              | Some (Some t # _) \<Rightarrow> Inr t)))"

text \<open>The \<^verbatim>\<open>for\<close> loop of \<^verbatim>\<open>stream_response\<close>: the texts yielded and the exception that ends it.\<close>

fun yield_loop :: "chunk list \<Rightarrow> string list \<times> exn option" where
  "yield_loop [] = ([], None)"
| "yield_loop (OtherChunk # rest) = yield_loop rest"
| "yield_loop (ContentBlockDelta None # rest) = ([], Some (KeyError ''text''))"
| "yield_loop (ContentBlockDelta (Some t) # rest) =
     (case yield_loop rest of (yielded, e) \<Rightarrow> (t # yielded, e))"

text \<open>
  \<^verbatim>\<open>stream_response\<close> is a generator function: its body runs when the returned generator
  is iterated. This is the body, run to its end: the calls it makes, the texts it yields
  and the exception it raises to the consumer, if any.
\<close>

definition stream_response ::
  "world \<Rightarrow> string \<Rightarrow> payload \<Rightarrow> string \<Rightarrow> call list \<times> string list \<times> exn option" where
  "stream_response w model_id payload region =
     (let client = get_runtime_client region;
          payload1 = (if system payload \<noteq> None then payload\<lparr>system := None\<rparr> else payload);
          payload2 = (if additionalModelRequestFields payload1 \<noteq> None
                      then payload1\<lparr>additionalModelRequestFields := None\<rparr> else payload1)
      in case converse_stream w client payload2 of
           Inl e \<Rightarrow> ([ConverseStream client payload2], [], Some e)
         | Inr streaming_response \<Rightarrow>
            (case stream_events streaming_response of
               None \<Rightarrow> ([ConverseStream client payload2], [], Some (KeyError ''stream''))
             | Some (chunks, failure) \<Rightarrow>
                (case yield_loop chunks of
                   (yielded, Some e) \<Rightarrow> ([ConverseStream client payload2], yielded, Some e)
                 | (yielded, None) \<Rightarrow> ([ConverseStream client payload2], yielded, failure))))"

text \<open>A generator object: the suspended call \<^verbatim>\<open>stream_response(model_id, payload, region)\<close>.\<close>

record generator =
  gen_model_id :: string
  gen_payload :: payload
  gen_region :: string

text \<open>What the host gets when it iterates the generator to its end.\<close>

definition consume :: "world \<Rightarrow> generator \<Rightarrow> call list \<times> string list \<times> exn option" where
  "consume w g = stream_response w (gen_model_id g) (gen_payload g) (gen_region g)"

datatype pipe_result = PipeStr string | PipeGenerator generator

text \<open>The body of the \<^verbatim>\<open>try\<close> in \<^verbatim>\<open>pipe\<close>.\<close>

definition pipe_try ::
  "world \<Rightarrow> model_entry list \<Rightarrow> string \<Rightarrow> pyval \<Rightarrow> message list \<Rightarrow> body
     \<Rightarrow> call list \<times> (exn + pipe_result)" where
  "pipe_try w pipelines model_id system_message msgs body =
     (case message_loop w msgs ([], [], 0) of
        (calls, Inl e) \<Rightarrow> (calls, Inl e)
      | (calls, Inr (processed_messages, image_count)) \<Rightarrow>
         (let payload =
                \<lparr>payload_modelId = model_id,
                 messages = processed_messages,
                 system = Some (if truthy system_message then system_message
                                else PStr ''you are an intelligent ai assistant''),
                 inferenceConfig = (case temperature body of None \<Rightarrow> PFloat 0.5 | Some v \<Rightarrow> v),
                 additionalModelRequestFields =
                   Some (case top_k body of None \<Rightarrow> PInt 200 | Some v \<Rightarrow> v,
                         case top_p body of None \<Rightarrow> PFloat 0.9 | Some v \<Rightarrow> v)\<rparr>;
              region = get_model_region pipelines model_id
          in if truthy (case stream body of None \<Rightarrow> PBool False | Some v \<Rightarrow> v) then
               (calls, Inr (PipeGenerator
                  \<lparr>gen_model_id = model_id, gen_payload = payload, gen_region = region\<rparr>))
             else
               (case get_completion w model_id payload region of
                  (c, Inl e) \<Rightarrow> (calls @ c, Inl e)
                | (c, Inr text) \<Rightarrow> (calls @ c, Inr (PipeStr text)))))"

text \<open>
  \<^verbatim>\<open>pipe\<close>: \<^verbatim>\<open>pop_system_message\<close> runs before the \<^verbatim>\<open>try\<close>, so its exception leaves
  \<^verbatim>\<open>pipe\<close>; an exception of the \<^verbatim>\<open>try\<close> body becomes the string \<^verbatim>\<open>f"Error: {e}"\<close>.
  (\<^verbatim>\<open>print\<close>, \<^verbatim>\<open>logging.info\<close> and \<^verbatim>\<open>json.dumps\<close> of the messages are left out.)
\<close>

definition pipe ::
  "world \<Rightarrow> model_entry list \<Rightarrow> string \<Rightarrow> string \<Rightarrow> message list \<Rightarrow> body
     \<Rightarrow> call list \<times> (exn + pipe_result)" where
  "pipe w pipelines user_message model_id msgs body =
     (case pop_system_message w msgs of
        Inl e \<Rightarrow> ([], Inl e)
      | Inr (system_message, msgs') \<Rightarrow>
         (case pipe_try w pipelines model_id system_message msgs' body of
            (calls, Inr result) \<Rightarrow> (calls, Inr result)
          | (calls, Inl e) \<Rightarrow> (calls, Inr (PipeStr (''Error: '' @ exn_str e)))))"

section \<open>Notions the properties are stated with\<close>

text \<open>
  \<^verbatim>\<open>self.pipelines = self.get_models()\<close>: the catalog a refresh publishes, and its RegionA,
  profile and RegionB groups as \<^verbatim>\<open>get_models\<close> computes them.
\<close>

definition refresh :: "world \<Rightarrow> model_entry list" where
  "refresh w = snd (get_models w)"

definition east_group :: "world \<Rightarrow> model_entry list" where
  "east_group w = snd (get_east_models w)"

definition east_ids :: "world \<Rightarrow> string set" where
  "east_ids w = set (map entry_id (east_group w))"

definition profile_group :: "world \<Rightarrow> model_entry list" where
  "profile_group w = snd (get_cross_region_profiles w (east_ids w))"

definition west_group :: "world \<Rightarrow> model_entry list" where
  "west_group w = snd (get_west_models w (east_ids w))"

text \<open>
  The ids a model listing gives to its \<^verbatim>\<open>ACTIVE\<close> models, in the listing's order (none when
  the call raises or the response has no summaries).
\<close>

definition active_ids :: "exn + model_summary list option \<Rightarrow> string option list" where
  "active_ids listing =
     (case listing of
        Inl e \<Rightarrow> []
      | Inr response \<Rightarrow>
         (case response of
            None \<Rightarrow> []
          | Some summaries \<Rightarrow>
              map modelId (filter (\<lambda>s. lifecycle_status s = Some ''ACTIVE'') summaries)))"

text \<open>The items of a message's mixed content list, by the branch the loop takes on them.\<close>

definition is_text_item :: "content_item \<Rightarrow> bool" where
  "is_text_item item = (item_type item = Some (PStr ''text''))"

definition is_image_item :: "content_item \<Rightarrow> bool" where
  "is_image_item item = (item_type item = Some (PStr ''image_url''))"

definition other_type :: "content_item \<Rightarrow> bool" where
  "other_type item =
     (case item_type item of
        None \<Rightarrow> False
      | Some t \<Rightarrow> t \<noteq> PStr ''text'' \<and> t \<noteq> PStr ''image_url'')"

definition content_items :: "message \<Rightarrow> content_item list" where
  "content_items m = (case msg_content m of Some (ContentList items) \<Rightarrow> items | _ \<Rightarrow> [])"

text \<open>The image items of a whole call, across its messages, in order.\<close>

definition image_items :: "message list \<Rightarrow> content_item list" where
  "image_items msgs = filter is_image_item (concat (map content_items msgs))"

text \<open>
  An item has the keys its branch reads; a message list is well formed when every message
  has a role and every item of every content list is well formed.
\<close>

definition well_formed_item :: "content_item \<Rightarrow> bool" where
  "well_formed_item item =
     (if is_text_item item then item_text item \<noteq> None
      else if is_image_item item then item_image_url item \<noteq> None
      else item_type item \<noteq> None)"

definition well_formed :: "message list \<Rightarrow> bool" where
  "well_formed msgs =
     list_all (\<lambda>m. msg_role m \<noteq> None \<and> list_all well_formed_item (content_items m)) msgs"

text \<open>An image item resolves when \<^verbatim>\<open>process_image\<close> returns a block for its reference.\<close>

definition resolves :: "world \<Rightarrow> content_item \<Rightarrow> bool" where
  "resolves w item =
     (case item_image_url item of
        None \<Rightarrow> False
      | Some img \<Rightarrow> (case snd (process_image w img) of Inl e \<Rightarrow> False | Inr b \<Rightarrow> True))"

text \<open>The fetch or decode that \<^verbatim>\<open>process_image\<close> performs for an image item.\<close>

definition image_calls :: "world \<Rightarrow> content_item \<Rightarrow> call list" where
  "image_calls w item =
     (case item_image_url item of None \<Rightarrow> [] | Some img \<Rightarrow> fst (process_image w img))"

text \<open>
  Normalization as the specification words it: a flat content is wrapped as a single text
  block; in a mixed list a text item becomes a text block, an image item becomes the block
  the image resolver gives, any other item gives nothing; roles and order are kept.
\<close>

definition item_block :: "world \<Rightarrow> content_item \<Rightarrow> content_block option" where
  "item_block w item =
     (if is_text_item item then map_option TextBlock (item_text item)
      else if is_image_item item then
        (case item_image_url item of
           None \<Rightarrow> None
         | Some img \<Rightarrow> (case snd (process_image w img) of Inl e \<Rightarrow> None | Inr b \<Rightarrow> Some b))
      else None)"

definition normalize_spec :: "world \<Rightarrow> message list \<Rightarrow> processed_message list" where
  "normalize_spec w msgs =
     map (\<lambda>m. \<lparr>role = the (msg_role m),
                content = (case msg_content m of
                             Some (ContentList items) \<Rightarrow> List.map_filter (item_block w) items
                           | Some (ContentValue v) \<Rightarrow> [TextBlock v]
                           | None \<Rightarrow> [TextBlock (PStr [])])\<rparr>) msgs"

text \<open>A message list with the items of other types removed from every content list.\<close>

definition drop_other_items :: "message list \<Rightarrow> message list" where
  "drop_other_items msgs =
     map (\<lambda>m. case msg_content m of
                 Some (ContentList items) \<Rightarrow>
                   m\<lparr>msg_content := Some (ContentList (filter (\<lambda>i. \<not> other_type i) items))\<rparr>
               | _ \<Rightarrow> m) msgs"

text \<open>A flat text message \<^verbatim>\<open>{"role": r, "content": s}\<close>.\<close>

definition text_message :: "string \<times> string \<Rightarrow> message" where
  "text_message rs = \<lparr>msg_role = Some (fst rs), msg_content = Some (ContentValue (PStr (snd rs)))\<rparr>"

section \<open>Example inputs\<close>

definition unreachable :: exn where
  "unreachable = Exn ''EndpointConnectionError'' ''Could not connect to the endpoint URL''"

text \<open>What \<^verbatim>\<open>base64.b64decode("A")\<close> raises.\<close>

definition invalid_base64 :: exn where
  "invalid_base64 = Exn ''binascii.Error''
     (''Invalid base64-encoded string: number of data characters (1) ''
        @ ''cannot be 1 more than a multiple of 4'')"

definition summary :: "string \<Rightarrow> string \<Rightarrow> string \<Rightarrow> model_summary" where
  "summary i n s = \<lparr>modelId = Some i, modelName = Some n, lifecycle_status = Some s\<rparr>"

text \<open>
  A world with empty listings, no reachable image host, a decoder that knows the base64
  text of \<^verbatim>\<open>b"hi"\<close> and rejects every other text (the one-character text \<^verbatim>\<open>A\<close> as
  Python does), a model that answers \<^verbatim>\<open>ok\<close>, and messages without a system message.
\<close>

definition quiet_world :: world where
  "quiet_world =
     \<lparr>east_list_foundation_models = Inr (Some []),
      east_list_inference_profiles = Inr (Some []),
      west_list_foundation_models = Inr (Some []),
      requests_get_content = (\<lambda>u. Inl unreachable),
      b64decode = (\<lambda>s. if s = ''aGk='' then Inr [0x68, 0x69]
                         else if s = ''A'' then Inl invalid_base64
                         else Inl (Exn ''binascii.Error'' ''Incorrect padding'')),
      converse = (\<lambda>c p. Inr \<lparr>output_message_content = Some [Some ''ok'']\<rparr>),
      converse_stream = (\<lambda>c p. Inr \<lparr>stream_events =
         Some ([ContentBlockDelta (Some ''o''), OtherChunk, ContentBlockDelta (Some ''k'')], None)\<rparr>),
      pop_system_message = (\<lambda>ms. Inr (PNone, ms))\<rparr>"

text \<open>Both model listings raise.\<close>

definition both_down :: world where
  "both_down = quiet_world
     \<lparr>east_list_foundation_models := Inl unreachable,
      west_list_foundation_models := Inl unreachable\<rparr>"

text \<open>The RegionA listing raises; RegionB lists one active model.\<close>

definition east_down :: world where
  "east_down = quiet_world
     \<lparr>east_list_foundation_models := Inl unreachable,
      west_list_foundation_models := Inr (Some [summary ''b'' ''B'' ''ACTIVE''])\<rparr>"

text \<open>
  Model \<^verbatim>\<open>a\<close> is active in both regions, \<^verbatim>\<open>l\<close> is legacy in RegionA and active in
  RegionB, \<^verbatim>\<open>b\<close> is active in RegionB only, and one active profile \<^verbatim>\<open>p\<close> is listed.
\<close>

definition overlap_world :: world where
  "overlap_world = quiet_world
     \<lparr>east_list_foundation_models :=
        Inr (Some [summary ''a'' ''A'' ''ACTIVE'', summary ''l'' ''L'' ''LEGACY'']),
      east_list_inference_profiles :=
        Inr (Some [\<lparr>profile_modelId = Some ''p'', profile_modelName = Some ''P'',
                    profile_region = None, profile_status = Some ''ACTIVE''\<rparr>]),
      west_list_foundation_models :=
        Inr (Some [summary ''a'' ''A'' ''ACTIVE'', summary ''l'' ''L'' ''ACTIVE'',
                   summary ''b'' ''B'' ''ACTIVE''])\<rparr>"

text \<open>The RegionA listing holds the active model \<^verbatim>\<open>a\<close> twice.\<close>

definition twice_listed :: world where
  "twice_listed = quiet_world
     \<lparr>east_list_foundation_models :=
        Inr (Some [summary ''a'' ''A'' ''ACTIVE'', summary ''a'' ''A'' ''ACTIVE''])\<rparr>"

text \<open>The RegionB listing holds the active model \<^verbatim>\<open>b\<close> twice.\<close>

definition twice_listed_west :: world where
  "twice_listed_west = quiet_world
     \<lparr>west_list_foundation_models :=
        Inr (Some [summary ''b'' ''B'' ''ACTIVE'', summary ''b'' ''B'' ''ACTIVE''])\<rparr>"

text \<open>The image host answers every URL with the same four bytes.\<close>

definition image_host_up :: world where
  "image_host_up = quiet_world\<lparr>requests_get_content := (\<lambda>u. Inr [0x89, 0x50, 0x4E, 0x47])\<rparr>"

text \<open>The streaming invocation raises.\<close>

definition stream_down :: world where
  "stream_down = quiet_world\<lparr>converse_stream := (\<lambda>c p. Inl unreachable)\<rparr>"

definition hello :: "message list" where
  "hello = [text_message (''user'', ''hello'')]"

definition default_body :: body where
  "default_body = \<lparr>temperature = None, top_k = None, top_p = None, stream = None\<rparr>"

definition text_item :: "string \<Rightarrow> content_item" where
  "text_item s = \<lparr>item_type = Some (PStr ''text''), item_text = Some (PStr s), item_image_url = None\<rparr>"

definition image_item :: "string \<Rightarrow> content_item" where
  "image_item u = \<lparr>item_type = Some (PStr ''image_url''), item_text = None,
                    item_image_url = Some \<lparr>url = Some u\<rparr>\<rparr>"

definition good_image :: content_item where
  "good_image = image_item ''data:image/jpeg;base64,aGk=''"

definition bad_image :: content_item where
  "bad_image = image_item ''data:image/jpeg;base64,A''"

definition user_items :: "content_item list \<Rightarrow> message" where
  "user_items items = \<lparr>msg_role = Some ''user'', msg_content = Some (ContentList items)\<rparr>"

text \<open>A text, an inline image and an item of another type in one message.\<close>

definition mixed_message :: "message list" where
  "mixed_message =
     [user_items [text_item ''look'', good_image,
                  \<lparr>item_type = Some (PStr ''video_url''), item_text = None, item_image_url = None\<rparr>]]"

text \<open>A text and an inline image whose base64 text is malformed.\<close>

definition mixed_bad_message :: "message list" where
  "mixed_bad_message = [user_items [text_item ''look'', bad_image]]"

text \<open>Image items at the cap: twenty and twenty-one inline images, spread over two messages.\<close>

definition twenty_images :: "message list" where
  "twenty_images = [user_items (replicate 10 good_image), user_items (replicate 10 good_image)]"

definition twenty_one_images :: "message list" where
  "twenty_one_images = [user_items (replicate 10 good_image), user_items (replicate 11 good_image)]"

text \<open>Twenty image items, the last of which holds malformed base64 text.\<close>

definition twenty_images_one_bad :: "message list" where
  "twenty_images_one_bad =
     [user_items (replicate 10 good_image), user_items (replicate 9 good_image @ [bad_image])]"

section \<open>Properties of the catalog\<close>

lemma cross_comprehension_empty:
  "cross_comprehension ids ps = Inr es \<Longrightarrow> es = []"
  by (induction ps) (auto split: if_splits option.splits)

lemma get_cross_region_profiles_empty:
  "snd (get_cross_region_profiles w ids) = []"
  by (cases "cross_try w ids")
     (auto simp: get_cross_region_profiles_def dest: cross_comprehension_empty
           simp: cross_try_def split: sum.splits)

lemma west_comprehension_filtered:
  "west_comprehension ids ms = Inr es \<Longrightarrow>
     \<forall>m \<in> set es. entry_id m \<notin> ids \<and> entry_region m = ''us-west-2''"
  by (induction ms arbitrary: es) (auto split: if_splits option.splits sum.splits)

lemma west_try_filtered:
  "west_try w ids = Inr es \<Longrightarrow> \<forall>m \<in> set es. entry_id m \<notin> ids \<and> entry_region m = ''us-west-2''"
  by (auto simp: west_try_def split: sum.splits option.splits dest: west_comprehension_filtered)

lemma refresh_three_groups: "refresh w = east_group w @ profile_group w @ west_group w"
  by (simp add: refresh_def get_models_def east_group_def profile_group_def west_group_def
        east_ids_def Let_def case_prod_beta)

lemma profile_group_empty: "profile_group w = []"
  by (simp add: profile_group_def get_cross_region_profiles_empty)

lemma refresh_groups: "refresh w = east_group w @ west_group w"
  by (simp add: refresh_three_groups profile_group_empty)

lemma west_group_cases:
  "west_group w = (case west_try w (east_ids w) of Inr models \<Rightarrow> models | Inl e \<Rightarrow> [west_sentinel])"
  by (simp add: west_group_def get_west_models_def)

lemma get_models_calls:
  "fst (get_models w) =
     [ListFoundationModels East_bedrock, ListInferenceProfiles East_bedrock,
      ListFoundationModels West_bedrock]"
  by (simp add: get_models_def get_east_models_def get_cross_region_profiles_def
        get_west_models_def)

lemma east_comprehension_ids:
  "east_comprehension summaries = Inr models \<Longrightarrow>
   map Some (map entry_id models) =
     map modelId (filter (\<lambda>s. lifecycle_status s = Some ''ACTIVE'') summaries)"
  by (induction summaries arbitrary: models)
     (auto split: if_splits option.splits sum.splits)

lemma west_comprehension_ids:
  "west_comprehension ids summaries = Inr models \<Longrightarrow>
   map Some (map entry_id models) =
     filter (\<lambda>i. i \<notin> Some ` ids)
       (map modelId (filter (\<lambda>s. lifecycle_status s = Some ''ACTIVE'') summaries))"
  by (induction summaries arbitrary: models)
     (auto split: if_splits option.splits sum.splits)

lemma distinct_map_Some: "distinct (map Some xs) \<Longrightarrow> distinct xs"
  by (simp add: distinct_map)

lemma east_group_distinct:
  assumes "distinct (active_ids (east_list_foundation_models w))"
  shows "distinct (map entry_id (east_group w))"
proof (cases "east_try w")
  case (Inl e)
  then show ?thesis
    by (simp add: east_group_def get_east_models_def)
next
  case (Inr models)
  then obtain summaries where listing: "east_list_foundation_models w = Inr (Some summaries)"
    and run: "east_comprehension summaries = Inr models"
    by (auto simp: east_try_def split: sum.splits option.splits)
  from assms listing east_comprehension_ids [OF run]
  have "distinct (map Some (map entry_id models))"
    by (simp add: active_ids_def)
  then have "distinct (map entry_id models)"
    by (rule distinct_map_Some)
  with Inr show ?thesis
    by (simp add: east_group_def get_east_models_def)
qed

lemma west_group_distinct:
  assumes "distinct (active_ids (west_list_foundation_models w))"
  shows "distinct (map entry_id (west_group w))"
proof (cases "west_try w (east_ids w)")
  case (Inl e)
  then show ?thesis
    by (simp add: west_group_cases)
next
  case (Inr models)
  then obtain summaries where listing: "west_list_foundation_models w = Inr (Some summaries)"
    and run: "west_comprehension (east_ids w) summaries = Inr models"
    by (auto simp: west_try_def split: sum.splits option.splits)
  from assms listing west_comprehension_ids [OF run]
  have "distinct (map Some (map entry_id models))"
    by (simp add: active_ids_def)
  then have "distinct (map entry_id models)"
    by (rule distinct_map_Some)
  with Inr show ?thesis
    by (simp add: west_group_cases)
qed

lemma west_group_disjoint:
  assumes "\<not> isl (west_try w (east_ids w)) \<or> ''error'' \<notin> east_ids w"
  shows "\<forall>m \<in> set (west_group w). entry_id m \<notin> east_ids w"
proof (cases "west_try w (east_ids w)")
  case (Inl e)
  with assms show ?thesis
    by (simp add: west_group_cases west_sentinel_def)
next
  case (Inr models)
  then show ?thesis
    using west_try_filtered [OF Inr] by (simp add: west_group_cases)
qed

text \<open>
  Claim C1, as the code has it. The RegionA group is kept whole at the head of the catalog.
  Unless the RegionB listing fails while the RegionA group already holds the id
  \<^verbatim>\<open>error\<close>, the catalog entries carrying an id of the RegionA group are exactly the
  RegionA group: a RegionB model whose id the RegionA group holds is dropped. If in
  addition neither model listing gives one id to two of its active models, no two entries
  of the catalog share an id.
\<close>

theorem refresh_ids_distinct:
  "prefix (east_group w) (refresh w)
   \<and> (\<not> isl (west_try w (east_ids w)) \<or> ''error'' \<notin> east_ids w \<longrightarrow>
        filter (\<lambda>m. entry_id m \<in> east_ids w) (refresh w) = east_group w)
   \<and> (distinct (active_ids (east_list_foundation_models w))
        \<and> distinct (active_ids (west_list_foundation_models w))
        \<and> (\<not> isl (west_try w (east_ids w)) \<or> ''error'' \<notin> east_ids w) \<longrightarrow>
        distinct (map entry_id (refresh w)))"
proof (intro conjI impI)
  show "prefix (east_group w) (refresh w)"
    by (simp add: refresh_groups)
next
  assume "\<not> isl (west_try w (east_ids w)) \<or> ''error'' \<notin> east_ids w"
  from west_group_disjoint [OF this]
  have "filter (\<lambda>m. entry_id m \<in> east_ids w) (west_group w) = []"
    by (simp add: filter_empty_conv)
  moreover have "filter (\<lambda>m. entry_id m \<in> east_ids w) (east_group w) = east_group w"
    by (simp add: east_ids_def)
  ultimately show "filter (\<lambda>m. entry_id m \<in> east_ids w) (refresh w) = east_group w"
    by (simp add: refresh_groups)
next
  assume h: "distinct (active_ids (east_list_foundation_models w))
        \<and> distinct (active_ids (west_list_foundation_models w))
        \<and> (\<not> isl (west_try w (east_ids w)) \<or> ''error'' \<notin> east_ids w)"
  then have east: "distinct (map entry_id (east_group w))"
    and west: "distinct (map entry_id (west_group w))"
    by (simp_all add: east_group_distinct west_group_distinct)
  from h have "\<forall>m \<in> set (west_group w). entry_id m \<notin> east_ids w"
    by (intro west_group_disjoint) simp
  then have "set (map entry_id (east_group w)) \<inter> set (map entry_id (west_group w)) = {}"
    unfolding east_ids_def by (force simp: image_iff)
  with east west show "distinct (map entry_id (refresh w))"
    by (simp add: refresh_groups)
qed

theorem refresh_ids_distinct_witness:
  "distinct (active_ids (east_list_foundation_models overlap_world))
   \<and> distinct (active_ids (west_list_foundation_models overlap_world))
   \<and> \<not> isl (west_try overlap_world (east_ids overlap_world))
   \<and> ''a'' \<in> east_ids overlap_world
   \<and> map entry_region
        (filter (\<lambda>m. entry_id m \<in> east_ids overlap_world) (refresh overlap_world)) =
       [''us-east-1'']
   \<and> distinct (map entry_id (refresh overlap_world))
   \<and> prefix (east_group overlap_world) (refresh overlap_world)"
proof -
  have east: "east_group overlap_world =
      [\<lparr>entry_id = ''a'', entry_name = ''A'', entry_region = ''us-east-1'',
         entry_description = Some ''A - us-east-1''\<rparr>]"
    by (simp add: east_group_def get_east_models_def east_try_def overlap_world_def
        quiet_world_def summary_def)
  have ids: "east_ids overlap_world = {''a''}"
    by (simp add: east_ids_def east)
  have west: "west_try overlap_world {''a''} =
      Inr [\<lparr>entry_id = ''l'', entry_name = ''L'', entry_region = ''us-west-2'',
             entry_description = Some ''L - us-west-2''\<rparr>,
           \<lparr>entry_id = ''b'', entry_name = ''B'', entry_region = ''us-west-2'',
             entry_description = Some ''B - us-west-2''\<rparr>]"
    by (simp add: west_try_def overlap_world_def quiet_world_def summary_def)
  have h1: "distinct (active_ids (east_list_foundation_models overlap_world))"
    by (simp add: active_ids_def overlap_world_def quiet_world_def summary_def)
  have h2: "distinct (active_ids (west_list_foundation_models overlap_world))"
    by (simp add: active_ids_def overlap_world_def quiet_world_def summary_def)
  have h3: "\<not> isl (west_try overlap_world (east_ids overlap_world))"
    by (simp add: ids west)
  have a: "''a'' \<in> east_ids overlap_world"
    by (simp add: ids)
  note inst = refresh_ids_distinct [of overlap_world]
  from inst h1 h2 h3 have d: "distinct (map entry_id (refresh overlap_world))"
    by blast
  from inst have p: "prefix (east_group overlap_world) (refresh overlap_world)"
    by blast
  from inst h3 have "filter (\<lambda>m. entry_id m \<in> east_ids overlap_world) (refresh overlap_world) =
      east_group overlap_world"
    by blast
  then have r: "map entry_region
      (filter (\<lambda>m. entry_id m \<in> east_ids overlap_world) (refresh overlap_world)) =
      [''us-east-1'']"
    by (simp only: east) simp
  from h1 h2 h3 a r d p show ?thesis
    by blast
qed

lemma refresh_overlap_world:
  "refresh overlap_world =
     [\<lparr>entry_id = ''a'', entry_name = ''A'', entry_region = ''us-east-1'',
        entry_description = Some ''A - us-east-1''\<rparr>,
      \<lparr>entry_id = ''l'', entry_name = ''L'', entry_region = ''us-west-2'',
        entry_description = Some ''L - us-west-2''\<rparr>,
      \<lparr>entry_id = ''b'', entry_name = ''B'', entry_region = ''us-west-2'',
        entry_description = Some ''B - us-west-2''\<rparr>]"
  by (simp add: refresh_def get_models_def get_east_models_def get_cross_region_profiles_def
      get_west_models_def east_try_def cross_try_def west_try_def overlap_world_def
      quiet_world_def summary_def)

text \<open>
  Claim C1 as stated fails in two ways. When both listings raise, each \<^verbatim>\<open>except\<close> branch
  returns a sentinel with the id \<^verbatim>\<open>error\<close>, and the catalog holds both. When the RegionA
  listing, or the RegionB listing, holds an active model twice, the catalog holds both
  entries: nothing removes a duplicate inside a group.
\<close>

theorem refresh_duplicate_ids_counterexample:
  "\<not> distinct (map entry_id (refresh both_down))
   \<and> \<not> distinct (map entry_id (refresh twice_listed))
   \<and> \<not> distinct (map entry_id (refresh twice_listed_west))"
  by (simp add: refresh_def get_models_def get_east_models_def get_cross_region_profiles_def
      get_west_models_def east_try_def cross_try_def west_try_def both_down_def
      twice_listed_def twice_listed_west_def quiet_world_def east_sentinel_def
      west_sentinel_def summary_def)

text \<open>
  Claim C5, as the code has it. When the RegionA listing call raises, the catalog starts
  with the sentinel \<^verbatim>\<open>{"id": "error", "name": "Error fetching east models", "region":
  "us-east-1"}\<close>, whose name tells the failure and which has no description; the profile
  listing and the RegionB listing are still called, in that order, and the RegionB group,
  filtered against the single id \<^verbatim>\<open>error\<close>, still ends the catalog.
\<close>

theorem east_listing_raises:
  assumes "east_list_foundation_models w = Inl e"
  shows "fst (get_models w) =
           [ListFoundationModels East_bedrock, ListInferenceProfiles East_bedrock,
            ListFoundationModels West_bedrock]
       \<and> prefix [east_sentinel] (refresh w)
       \<and> entry_id east_sentinel = ''error''
       \<and> entry_name east_sentinel = ''Error fetching east models''
       \<and> entry_description east_sentinel = None
       \<and> suffix (snd (get_west_models w {''error''})) (refresh w)"
proof -
  from assms have east: "east_group w = [east_sentinel]"
    by (simp add: east_group_def get_east_models_def east_try_def)
  then have ids: "east_ids w = {''error''}"
    by (simp add: east_ids_def east_sentinel_def)
  have "refresh w = east_sentinel # snd (get_west_models w {''error''})"
    by (simp add: refresh_groups east west_group_def ids)
  then show ?thesis
    by (simp add: get_models_calls east_sentinel_def suffix_Cons)
qed

theorem east_listing_raises_witness:
  "east_list_foundation_models east_down = Inl unreachable
   \<and> fst (get_models east_down) =
       [ListFoundationModels East_bedrock, ListInferenceProfiles East_bedrock,
        ListFoundationModels West_bedrock]
   \<and> prefix [east_sentinel] (refresh east_down)
   \<and> suffix [\<lparr>entry_id = ''b'', entry_name = ''B'', entry_region = ''us-west-2'',
                entry_description = Some ''B - us-west-2''\<rparr>] (refresh east_down)"
proof -
  have h: "east_list_foundation_models east_down = Inl unreachable"
    by (simp add: east_down_def quiet_world_def)
  have west: "snd (get_west_models east_down {''error''}) =
      [\<lparr>entry_id = ''b'', entry_name = ''B'', entry_region = ''us-west-2'',
         entry_description = Some ''B - us-west-2''\<rparr>]"
    by (simp add: get_west_models_def west_try_def east_down_def quiet_world_def summary_def)
  from east_listing_raises [OF h] h show ?thesis
    by (simp add: west)
qed

text \<open>
  Claim C5 as stated fails: in the catalog built when the RegionA listing raises, the one
  entry with the id \<^verbatim>\<open>error\<close> has no description.
\<close>

theorem east_down_counterexample:
  "refresh east_down =
     [\<lparr>entry_id = ''error'', entry_name = ''Error fetching east models'',
        entry_region = ''us-east-1'', entry_description = None\<rparr>,
      \<lparr>entry_id = ''b'', entry_name = ''B'', entry_region = ''us-west-2'',
        entry_description = Some ''B - us-west-2''\<rparr>]
   \<and> map entry_description (filter (\<lambda>m. entry_id m = ''error'') (refresh east_down)) = [None]"
  by (simp add: refresh_def get_models_def get_east_models_def get_cross_region_profiles_def
      get_west_models_def east_try_def cross_try_def west_try_def east_down_def
      quiet_world_def east_sentinel_def summary_def)

text \<open>
  Claim C6 fails on the code. The profile listing of \<open>overlap_world\<close> returns one active
  profile \<^verbatim>\<open>p\<close> that RegionA does not list; building its entry raises \<^verbatim>\<open>NameError\<close>,
  the \<^verbatim>\<open>except\<close> branch returns the empty list, and the catalog holds the RegionA and
  RegionB entries only.
\<close>

theorem cross_profile_dropped:
  "cross_try overlap_world (east_ids overlap_world) = Inl (NameError ''model'')
   \<and> snd (get_cross_region_profiles overlap_world (east_ids overlap_world)) = []
   \<and> refresh overlap_world =
     [\<lparr>entry_id = ''a'', entry_name = ''A'', entry_region = ''us-east-1'',
        entry_description = Some ''A - us-east-1''\<rparr>,
      \<lparr>entry_id = ''l'', entry_name = ''L'', entry_region = ''us-west-2'',
        entry_description = Some ''L - us-west-2''\<rparr>,
      \<lparr>entry_id = ''b'', entry_name = ''B'', entry_region = ''us-west-2'',
        entry_description = Some ''B - us-west-2''\<rparr>]"
proof -
  have ids: "east_ids overlap_world = {''a''}"
    by (simp add: east_ids_def east_group_def get_east_models_def east_try_def
        overlap_world_def quiet_world_def summary_def)
  have "cross_try overlap_world {''a''} = Inl (NameError ''model'')"
    by (simp add: cross_try_def overlap_world_def quiet_world_def)
  moreover have "refresh overlap_world =
     [\<lparr>entry_id = ''a'', entry_name = ''A'', entry_region = ''us-east-1'',
        entry_description = Some ''A - us-east-1''\<rparr>,
      \<lparr>entry_id = ''l'', entry_name = ''L'', entry_region = ''us-west-2'',
        entry_description = Some ''L - us-west-2''\<rparr>,
      \<lparr>entry_id = ''b'', entry_name = ''B'', entry_region = ''us-west-2'',
        entry_description = Some ''B - us-west-2''\<rparr>]"
    by (simp add: refresh_def get_models_def get_east_models_def get_cross_region_profiles_def
        get_west_models_def east_try_def cross_try_def west_try_def overlap_world_def
        quiet_world_def summary_def)
  ultimately show ?thesis
    by (simp add: ids get_cross_region_profiles_empty)
qed

section \<open>Properties of region routing\<close>

lemma get_model_region_absent:
  "model_id \<notin> set (map entry_id pipelines) \<Longrightarrow> get_model_region pipelines model_id = ''us-east-1''"
  by (induction pipelines) auto

text \<open>
  Claim C8. A model id that no catalog entry has resolves to \<^verbatim>\<open>us-east-1\<close> and so to the
  RegionA runtime client; \<^verbatim>\<open>get_runtime_client\<close> maps whatever region a lookup returns to one
  of the two clients built at start.
\<close>

theorem get_model_region_default:
  assumes "model_id \<notin> set (map entry_id pipelines)"
  shows "get_model_region pipelines model_id = ''us-east-1''
       \<and> get_runtime_client (get_model_region pipelines model_id) = East_bedrock_runtime
       \<and> get_runtime_client (get_model_region pipelines other_id)
            \<in> {East_bedrock_runtime, West_bedrock_runtime}"
  using get_model_region_absent [OF assms]
  by (simp add: get_runtime_client_def)

theorem get_model_region_default_witness:
  "''model-Z'' \<notin> set (map entry_id (refresh overlap_world))
   \<and> get_model_region (refresh overlap_world) ''model-Z'' = ''us-east-1''
   \<and> get_runtime_client (get_model_region (refresh overlap_world) ''model-Z'') = East_bedrock_runtime
   \<and> get_runtime_client (get_model_region (refresh overlap_world) ''b'') = West_bedrock_runtime"
proof -
  have h: "''model-Z'' \<notin> set (map entry_id (refresh overlap_world))"
    by (simp add: refresh_overlap_world)
  from get_model_region_default [OF h, of "''b''"] h show ?thesis
    by (simp add: refresh_overlap_world get_runtime_client_def)
qed

text \<open>
  Claim C10. The scan returns at the first entry whose id matches: when no entry before
  \<open>m\<close> has the id, \<open>m\<close> gives the region, whatever entries with the same id follow.
\<close>

theorem get_model_region_first_match:
  assumes "entry_id m = model_id"
      and "model_id \<notin> set (map entry_id before)"
  shows "get_model_region (before @ m # after) model_id = entry_region m"
  using assms by (induction before) auto

theorem get_model_region_first_match_witness:
  "entry_id east_sentinel = ''error''
   \<and> ''error'' \<notin> set (map entry_id [])
   \<and> refresh both_down = [] @ east_sentinel # [west_sentinel]
   \<and> get_model_region (refresh both_down) ''error'' = ''us-east-1''"
proof -
  have h1: "entry_id east_sentinel = ''error''"
    by (simp add: east_sentinel_def)
  have h2: "''error'' \<notin> set (map entry_id [])"
    by simp
  have cat: "refresh both_down = [] @ east_sentinel # [west_sentinel]"
    by (simp add: refresh_def get_models_def get_east_models_def get_cross_region_profiles_def
        get_west_models_def east_try_def cross_try_def west_try_def both_down_def
        quiet_world_def)
  from get_model_region_first_match [OF h1 h2, of "[west_sentinel]"] h1 cat show ?thesis
    by (simp add: east_sentinel_def)
qed

section \<open>Properties of image resolution\<close>

lemma process_image_remote:
  assumes "url img = Some u" and "\<not> prefix ''data:image'' u"
  shows "process_image w img =
           ([RequestsGet u],
            case requests_get_content w u of
              Inl e \<Rightarrow> Inl e
            | Inr c \<Rightarrow> Inl (AttributeError ''bytes'' ''read''))"
  using assms by (simp add: process_image_def image_block_def read_def split: sum.splits)

text \<open>
  Claim C4 fails on the code. The fetch of \<^verbatim>\<open>https://example.com/cat.png\<close> succeeds with four
  bytes; \<^verbatim>\<open>.content\<close> is a \<^verbatim>\<open>bytes\<close> object, and \<^verbatim>\<open>img_stream.read()\<close> raises
  \<^verbatim>\<open>AttributeError\<close> in place of returning an image block.
\<close>

theorem process_image_remote_raises:
  "requests_get_content image_host_up ''https://example.com/cat.png'' = Inr [0x89, 0x50, 0x4E, 0x47]
   \<and> process_image image_host_up \<lparr>url = Some ''https://example.com/cat.png''\<rparr> =
       ([RequestsGet ''https://example.com/cat.png''], Inl (AttributeError ''bytes'' ''read''))"
  by (simp add: process_image_def image_block_def read_def image_host_up_def quiet_world_def)

section \<open>Properties of dispatch\<close>

text \<open>
  What the \<^verbatim>\<open>try\<close> of \<^verbatim>\<open>pipe\<close> does catch: once the system message is extracted,
  \<^verbatim>\<open>pipe\<close> itself returns, with a string or a generator.
\<close>

lemma pipe_returns:
  assumes "pop_system_message w msgs = Inr (system_message, msgs')"
  shows "\<exists>calls result. pipe w pipelines user_message model_id msgs body = (calls, Inr result)"
proof (cases "pipe_try w pipelines model_id system_message msgs' body")
  case (Pair calls r)
  with assms show ?thesis
    by (cases r) (simp_all add: pipe_def)
qed

text \<open>
  Claim C2 fails on the code. With \<^verbatim>\<open>stream\<close> set, \<^verbatim>\<open>pipe\<close> returns the generator without
  running any of \<^verbatim>\<open>stream_response\<close>; when the host iterates it, the streaming invocation
  raises and the exception reaches the host, outside the \<^verbatim>\<open>try\<close> of \<^verbatim>\<open>pipe\<close>.
\<close>

theorem stream_failure_reaches_host:
  "pipe stream_down [] ''hello'' ''model-A'' hello (default_body\<lparr>stream := Some (PBool True)\<rparr>) =
     ([], Inr (PipeGenerator
        \<lparr>gen_model_id = ''model-A'',
         gen_payload =
           \<lparr>payload_modelId = ''model-A'',
            messages = [\<lparr>role = ''user'', content = [TextBlock (PStr ''hello'')]\<rparr>],
            system = Some (PStr ''you are an intelligent ai assistant''),
            inferenceConfig = PFloat 0.5,
            additionalModelRequestFields = Some (PInt 200, PFloat 0.9)\<rparr>,
         gen_region = ''us-east-1''\<rparr>))
   \<and> consume stream_down
        \<lparr>gen_model_id = ''model-A'',
         gen_payload =
           \<lparr>payload_modelId = ''model-A'',
            messages = [\<lparr>role = ''user'', content = [TextBlock (PStr ''hello'')]\<rparr>],
            system = Some (PStr ''you are an intelligent ai assistant''),
            inferenceConfig = PFloat 0.5,
            additionalModelRequestFields = Some (PInt 200, PFloat 0.9)\<rparr>,
         gen_region = ''us-east-1''\<rparr> =
     ([ConverseStream East_bedrock_runtime
         \<lparr>payload_modelId = ''model-A'',
          messages = [\<lparr>role = ''user'', content = [TextBlock (PStr ''hello'')]\<rparr>],
          system = None,
          inferenceConfig = PFloat 0.5,
          additionalModelRequestFields = None\<rparr>],
      [], Some unreachable)"
  by (simp add: pipe_def pipe_try_def message_content_def consume_def stream_response_def
      get_runtime_client_def stream_down_def quiet_world_def hello_def text_message_def
      default_body_def)

lemma get_completion_calls:
  "fst (get_completion w model_id p region) = [Converse (get_runtime_client region) p]"
  by (simp add: get_completion_def Let_def)

lemma pipe_calls:
  "pop_system_message w msgs = Inr (system_message, msgs') \<Longrightarrow>
   fst (pipe w pipelines user_message model_id msgs body) =
     fst (pipe_try w pipelines model_id system_message msgs' body)"
  by (cases "pipe_try w pipelines model_id system_message msgs' body")
     (simp add: pipe_def split: sum.splits)

text \<open>
  Claim C3. Whenever the system message is extracted and the messages normalize, a blocking
  dispatch sends one payload \<open>p\<close> through \<^verbatim>\<open>converse\<close> and a streaming dispatch of the same
  input, once its generator is consumed, sends one payload \<open>q\<close> through
  \<^verbatim>\<open>converse_stream\<close> of the same client: both have the same model id, messages and
  temperature; \<open>p\<close> has the system prompt and the fields \<^verbatim>\<open>top_k\<close>, \<^verbatim>\<open>top_p\<close>, \<open>q\<close> has
  neither.
\<close>

theorem streaming_payload_reduced:
  assumes "pop_system_message w msgs = Inr (system_message, msgs')"
      and "message_loop w msgs' ([], [], 0) = (calls, Inr (processed_messages, n))"
  shows "\<exists>p q g.
           fst (pipe w pipelines user_message model_id msgs (body\<lparr>stream := Some (PBool False)\<rparr>)) =
             calls @ [Converse (get_runtime_client (get_model_region pipelines model_id)) p]
         \<and> pipe w pipelines user_message model_id msgs (body\<lparr>stream := Some (PBool True)\<rparr>) =
             (calls, Inr (PipeGenerator g))
         \<and> fst (consume w g) =
             [ConverseStream (get_runtime_client (get_model_region pipelines model_id)) q]
         \<and> payload_modelId p = model_id \<and> payload_modelId q = model_id
         \<and> messages p = processed_messages \<and> messages q = processed_messages
         \<and> inferenceConfig p = (case temperature body of None \<Rightarrow> PFloat 0.5 | Some v \<Rightarrow> v)
         \<and> inferenceConfig q = inferenceConfig p
         \<and> system p \<noteq> None \<and> additionalModelRequestFields p \<noteq> None
         \<and> system q = None \<and> additionalModelRequestFields q = None"
proof -
  define p where "p =
     \<lparr>payload_modelId = model_id,
      messages = processed_messages,
      system = Some (if truthy system_message then system_message
                     else PStr ''you are an intelligent ai assistant''),
      inferenceConfig = (case temperature body of None \<Rightarrow> PFloat 0.5 | Some v \<Rightarrow> v),
      additionalModelRequestFields =
        Some (case top_k body of None \<Rightarrow> PInt 200 | Some v \<Rightarrow> v,
              case top_p body of None \<Rightarrow> PFloat 0.9 | Some v \<Rightarrow> v)\<rparr>"
  define region where "region = get_model_region pipelines model_id"
  define g where "g = \<lparr>gen_model_id = model_id, gen_payload = p, gen_region = region\<rparr>"
  define q where "q = p\<lparr>system := None, additionalModelRequestFields := None\<rparr>"
  have blocking_try:
    "fst (pipe_try w pipelines model_id system_message msgs' (body\<lparr>stream := Some (PBool False)\<rparr>)) =
       calls @ [Converse (get_runtime_client region) p]"
    using get_completion_calls [of w model_id p region]
    by (cases "get_completion w model_id p region")
       (simp add: pipe_try_def assms(2) p_def region_def split: sum.splits)
  have blocking:
    "fst (pipe w pipelines user_message model_id msgs (body\<lparr>stream := Some (PBool False)\<rparr>)) =
       calls @ [Converse (get_runtime_client region) p]"
    by (simp add: pipe_calls [OF assms(1)] blocking_try)
  have streaming_try:
    "pipe_try w pipelines model_id system_message msgs' (body\<lparr>stream := Some (PBool True)\<rparr>) =
       (calls, Inr (PipeGenerator g))"
    by (simp add: pipe_try_def assms(2) p_def region_def g_def)
  have streaming:
    "pipe w pipelines user_message model_id msgs (body\<lparr>stream := Some (PBool True)\<rparr>) =
       (calls, Inr (PipeGenerator g))"
    by (simp add: pipe_def assms(1) streaming_try)
  have sys: "system p \<noteq> None" and add: "additionalModelRequestFields p \<noteq> None"
    by (simp_all add: p_def)
  have consumed: "fst (consume w g) = [ConverseStream (get_runtime_client region) q]"
    using sys add
    by (simp add: consume_def stream_response_def g_def q_def Let_def
          split: sum.splits option.splits prod.splits)
  have fields: "payload_modelId p = model_id \<and> payload_modelId q = model_id
      \<and> messages p = processed_messages \<and> messages q = processed_messages
      \<and> inferenceConfig p = (case temperature body of None \<Rightarrow> PFloat 0.5 | Some v \<Rightarrow> v)
      \<and> inferenceConfig q = inferenceConfig p
      \<and> system q = None \<and> additionalModelRequestFields q = None"
    by (simp add: p_def q_def)
  from blocking streaming consumed fields sys add show ?thesis
    unfolding region_def by blast
qed

theorem streaming_payload_reduced_witness:
  "pop_system_message quiet_world hello = Inr (PNone, hello)
   \<and> message_loop quiet_world hello ([], [], 0) =
       ([], Inr ([\<lparr>role = ''user'', content = [TextBlock (PStr ''hello'')]\<rparr>], 0))
   \<and> (\<exists>p q g.
         fst (pipe quiet_world [] ''hello'' ''model-A'' hello
                (default_body\<lparr>stream := Some (PBool False)\<rparr>)) =
           [] @ [Converse (get_runtime_client (get_model_region [] ''model-A'')) p]
       \<and> pipe quiet_world [] ''hello'' ''model-A'' hello
            (default_body\<lparr>stream := Some (PBool True)\<rparr>) = ([], Inr (PipeGenerator g))
       \<and> fst (consume quiet_world g) =
           [ConverseStream (get_runtime_client (get_model_region [] ''model-A'')) q]
       \<and> payload_modelId p = ''model-A'' \<and> payload_modelId q = ''model-A''
       \<and> messages p = [\<lparr>role = ''user'', content = [TextBlock (PStr ''hello'')]\<rparr>]
       \<and> messages q = [\<lparr>role = ''user'', content = [TextBlock (PStr ''hello'')]\<rparr>]
       \<and> inferenceConfig p = (case temperature default_body of None \<Rightarrow> PFloat 0.5 | Some v \<Rightarrow> v)
       \<and> inferenceConfig q = inferenceConfig p
       \<and> system p \<noteq> None \<and> additionalModelRequestFields p \<noteq> None
       \<and> system q = None \<and> additionalModelRequestFields q = None)"
proof -
  have h1: "pop_system_message quiet_world hello = Inr (PNone, hello)"
    by (simp add: quiet_world_def)
  have h2: "message_loop quiet_world hello ([], [], 0) =
      ([], Inr ([\<lparr>role = ''user'', content = [TextBlock (PStr ''hello'')]\<rparr>], 0))"
    by (simp add: hello_def text_message_def message_content_def)
  from h1 h2
    streaming_payload_reduced [OF h1 h2, of "[]" "''hello''" "''model-A''" default_body]
  show ?thesis
    by blast
qed

section \<open>Properties of message normalization\<close>

lemma text_not_image: "is_text_item item \<Longrightarrow> \<not> is_image_item item"
  by (simp add: is_text_item_def is_image_item_def)

lemma content_loop_success:
  assumes "list_all well_formed_item items"
      and "list_all (resolves w) (filter is_image_item items)"
      and "image_count + length (filter is_image_item items) \<le> 20"
  shows "content_loop w items (calls, processed_content, image_count) =
           (calls @ concat (map (image_calls w) (filter is_image_item items)),
            Inr (processed_content @ List.map_filter (item_block w) items,
                 image_count + length (filter is_image_item items)))"
  using assms
proof (induction items arbitrary: calls processed_content image_count)
  case Nil
  then show ?case by (simp add: map_filter_simps)
next
  case (Cons item rest)
  from Cons.prems(1) have wf: "well_formed_item item" and wf_rest: "list_all well_formed_item rest"
    by simp_all
  show ?case
  proof (cases "is_text_item item")
    case True
    with wf obtain v where v: "item_text item = Some v"
      by (auto simp: well_formed_item_def)
    from True have ty: "item_type item = Some (PStr ''text'')"
      by (simp add: is_text_item_def)
    from True have not_image: "\<not> is_image_item item"
      by (rule text_not_image)
    have "content_loop w (item # rest) (calls, processed_content, image_count) =
            content_loop w rest (calls, processed_content @ [TextBlock v], image_count)"
      by (simp add: ty v)
    also have "\<dots> = (calls @ concat (map (image_calls w) (filter is_image_item rest)),
            Inr ((processed_content @ [TextBlock v]) @ List.map_filter (item_block w) rest,
                 image_count + length (filter is_image_item rest)))"
      using Cons.prems(2,3) not_image by (intro Cons.IH wf_rest) simp_all
    finally have "content_loop w (item # rest) (calls, processed_content, image_count) =
        (calls @ concat (map (image_calls w) (filter is_image_item rest)),
            Inr ((processed_content @ [TextBlock v]) @ List.map_filter (item_block w) rest,
                 image_count + length (filter is_image_item rest)))" .
    moreover have "item_block w item = Some (TextBlock v)"
      using True by (simp add: item_block_def v)
    ultimately show ?thesis
      using not_image by (simp add: map_filter_simps)
  next
    case not_text: False
    show ?thesis
    proof (cases "is_image_item item")
      case True
      then have ty: "item_type item = Some (PStr ''image_url'')"
        by (simp add: is_image_item_def)
      from Cons.prems(2) True have res: "resolves w item"
        and res_rest: "list_all (resolves w) (filter is_image_item rest)"
        by simp_all
      from res obtain img c b where img: "item_image_url item = Some img"
        and pi: "process_image w img = (c, Inr b)"
        by (cases "item_image_url item"; cases "process_image w (the (item_image_url item))")
           (auto simp: resolves_def split: sum.splits)
      from Cons.prems(3) True have below: "\<not> image_count \<ge> 20"
        and cap_rest: "(image_count + 1) + length (filter is_image_item rest) \<le> 20"
        by simp_all
      have "content_loop w (item # rest) (calls, processed_content, image_count) =
              content_loop w rest (calls @ c, processed_content @ [b], image_count + 1)"
        using below by (simp add: ty img pi)
      also have "\<dots> = ((calls @ c) @ concat (map (image_calls w) (filter is_image_item rest)),
              Inr ((processed_content @ [b]) @ List.map_filter (item_block w) rest,
                   (image_count + 1) + length (filter is_image_item rest)))"
        by (intro Cons.IH wf_rest res_rest cap_rest)
      finally have "content_loop w (item # rest) (calls, processed_content, image_count) =
          ((calls @ c) @ concat (map (image_calls w) (filter is_image_item rest)),
              Inr ((processed_content @ [b]) @ List.map_filter (item_block w) rest,
                   (image_count + 1) + length (filter is_image_item rest)))" .
      moreover have "item_block w item = Some b"
        using True not_text by (simp add: item_block_def img pi)
      moreover have "image_calls w item = c"
        by (simp add: image_calls_def img pi)
      ultimately show ?thesis
        using True by (simp add: map_filter_simps)
    next
      case False
      with not_text wf obtain t where ty: "item_type item = Some t"
        and t1: "t \<noteq> PStr ''text''" and t2: "t \<noteq> PStr ''image_url''"
        by (auto simp: well_formed_item_def is_text_item_def is_image_item_def)
      have "content_loop w (item # rest) (calls, processed_content, image_count) =
              content_loop w rest (calls, processed_content, image_count)"
        by (simp add: ty t1 t2)
      also have "\<dots> = (calls @ concat (map (image_calls w) (filter is_image_item rest)),
              Inr (processed_content @ List.map_filter (item_block w) rest,
                   image_count + length (filter is_image_item rest)))"
        using Cons.prems(2,3) False by (intro Cons.IH wf_rest) simp_all
      finally have "content_loop w (item # rest) (calls, processed_content, image_count) =
          (calls @ concat (map (image_calls w) (filter is_image_item rest)),
              Inr (processed_content @ List.map_filter (item_block w) rest,
                   image_count + length (filter is_image_item rest)))" .
      moreover have "item_block w item = None"
        using False not_text by (simp add: item_block_def)
      ultimately show ?thesis
        using False by (simp add: map_filter_simps)
    qed
  qed
qed

lemma image_items_Cons:
  "image_items (m # rest) = filter is_image_item (content_items m) @ image_items rest"
  by (simp add: image_items_def)

lemma message_content_success:
  assumes "list_all well_formed_item (content_items m)"
      and "list_all (resolves w) (filter is_image_item (content_items m))"
      and "image_count + length (filter is_image_item (content_items m)) \<le> 20"
  shows "message_content w m calls image_count =
           (calls @ concat (map (image_calls w) (filter is_image_item (content_items m))),
            Inr (case msg_content m of
                   Some (ContentList items) \<Rightarrow> List.map_filter (item_block w) items
                 | Some (ContentValue v) \<Rightarrow> [TextBlock v]
                 | None \<Rightarrow> [TextBlock (PStr [])],
                 image_count + length (filter is_image_item (content_items m))))"
proof (cases "msg_content m")
  case None
  then show ?thesis by (simp add: message_content_def content_items_def)
next
  case (Some c)
  show ?thesis
  proof (cases c)
    case (ContentList items)
    with Some have items: "content_items m = items"
      by (simp add: content_items_def)
    from content_loop_success [of items w image_count calls "[]"] assms
    show ?thesis
      by (simp add: message_content_def Some ContentList items)
  next
    case (ContentValue v)
    with Some show ?thesis by (simp add: message_content_def content_items_def)
  qed
qed

lemma message_loop_success:
  assumes "well_formed msgs"
      and "list_all (resolves w) (image_items msgs)"
      and "image_count + length (image_items msgs) \<le> 20"
  shows "message_loop w msgs (calls, processed_messages, image_count) =
           (calls @ concat (map (image_calls w) (image_items msgs)),
            Inr (processed_messages @ normalize_spec w msgs,
                 image_count + length (image_items msgs)))"
  using assms
proof (induction msgs arbitrary: calls processed_messages image_count)
  case Nil
  then show ?case by (simp add: image_items_def normalize_spec_def)
next
  case (Cons m rest)
  let ?imgs = "filter is_image_item (content_items m)"
  from Cons.prems(1) obtain r where r: "msg_role m = Some r"
    and wf_m: "list_all well_formed_item (content_items m)"
    and wf_rest: "well_formed rest"
    by (auto simp: well_formed_def)
  from Cons.prems(2) have res_m: "list_all (resolves w) ?imgs"
    and res_rest: "list_all (resolves w) (image_items rest)"
    by (simp_all add: image_items_Cons)
  from Cons.prems(3) have cap_m: "image_count + length ?imgs \<le> 20"
    and cap_rest: "(image_count + length ?imgs) + length (image_items rest) \<le> 20"
    by (simp_all add: image_items_Cons)
  define blocks where "blocks =
     (case msg_content m of
        Some (ContentList items) \<Rightarrow> List.map_filter (item_block w) items
      | Some (ContentValue v) \<Rightarrow> [TextBlock v]
      | None \<Rightarrow> [TextBlock (PStr [])])"
  have step: "message_loop w (m # rest) (calls, processed_messages, image_count) =
      message_loop w rest
        (calls @ concat (map (image_calls w) ?imgs),
         processed_messages @ [\<lparr>role = r, content = blocks\<rparr>],
         image_count + length ?imgs)"
    by (simp add: message_content_success [OF wf_m res_m cap_m] r blocks_def)
  have "message_loop w rest
        (calls @ concat (map (image_calls w) ?imgs),
         processed_messages @ [\<lparr>role = r, content = blocks\<rparr>],
         image_count + length ?imgs) =
      ((calls @ concat (map (image_calls w) ?imgs)) @ concat (map (image_calls w) (image_items rest)),
       Inr ((processed_messages @ [\<lparr>role = r, content = blocks\<rparr>]) @ normalize_spec w rest,
            (image_count + length ?imgs) + length (image_items rest)))"
    by (intro Cons.IH wf_rest res_rest cap_rest)
  moreover have "normalize_spec w (m # rest) = \<lparr>role = r, content = blocks\<rparr> # normalize_spec w rest"
    by (simp add: normalize_spec_def r blocks_def)
  ultimately show ?case
    unfolding step by (simp add: image_items_Cons)
qed

lemma content_loop_Inr:
  "content_loop w items (calls, processed_content, image_count) = (calls', Inr (blocks, n)) \<Longrightarrow>
   image_count \<le> 20 \<Longrightarrow>
   n = image_count + length (filter is_image_item items) \<and> n \<le> 20
   \<and> calls' = calls @ concat (map (image_calls w) (filter is_image_item items))"
proof (induction items arbitrary: calls processed_content image_count)
  case Nil
  then show ?case by simp
next
  case (Cons item rest)
  show ?case
  proof (cases "item_type item")
    case None
    with Cons.prems show ?thesis by simp
  next
    case (Some t)
    show ?thesis
    proof (cases "t = PStr ''text''")
      case True
      with Some have not_image: "\<not> is_image_item item"
        by (simp add: is_image_item_def)
      from Cons.prems(1) Some True obtain v where
        "content_loop w rest (calls, processed_content @ [TextBlock v], image_count) =
           (calls', Inr (blocks, n))"
        by (cases "item_text item") simp_all
      from Cons.IH [OF this Cons.prems(2)] not_image show ?thesis
        by simp
    next
      case not_text: False
      show ?thesis
      proof (cases "t = PStr ''image_url''")
        case True
        with Some have is_image: "is_image_item item"
          by (simp add: is_image_item_def)
        from Cons.prems(1) Some True have below: "\<not> 20 \<le> image_count"
          by (cases "20 \<le> image_count") simp_all
        with Cons.prems(1) Some True obtain img where img: "item_image_url item = Some img"
          by (cases "item_image_url item") simp_all
        obtain c r where pi: "process_image w img = (c, r)"
          by (cases "process_image w img")
        with Cons.prems(1) Some True below img obtain b where b: "r = Inr b"
          by (cases r) simp_all
        from Cons.prems(1) Some True below img pi b have
          "content_loop w rest (calls @ c, processed_content @ [b], image_count + 1) =
             (calls', Inr (blocks, n))"
          by simp
        moreover from below have "image_count + 1 \<le> 20"
          by simp
        ultimately have "n = (image_count + 1) + length (filter is_image_item rest) \<and> n \<le> 20
            \<and> calls' = (calls @ c) @ concat (map (image_calls w) (filter is_image_item rest))"
          by (rule Cons.IH)
        moreover have "image_calls w item = c"
          by (simp add: image_calls_def img pi)
        ultimately show ?thesis
          using is_image by simp
      next
        case False
        with Some not_text have not_image: "\<not> is_image_item item"
          by (simp add: is_image_item_def)
        from Cons.prems(1) Some not_text False have
          "content_loop w rest (calls, processed_content, image_count) = (calls', Inr (blocks, n))"
          by simp
        from Cons.IH [OF this Cons.prems(2)] not_image show ?thesis
          by simp
      qed
    qed
  qed
qed

lemma content_loop_trace:
  "image_count \<le> 20 \<Longrightarrow>
   \<exists>extra. fst (content_loop w items (calls, processed_content, image_count)) = calls @ extra
     \<and> prefix extra
          (concat (map (image_calls w) (take (20 - image_count) (filter is_image_item items))))"
proof (induction items arbitrary: calls processed_content image_count)
  case Nil
  then show ?case by simp
next
  case (Cons item rest)
  show ?case
  proof (cases "item_type item")
    case None
    then show ?thesis by simp
  next
    case (Some t)
    show ?thesis
    proof (cases "t = PStr ''text''")
      case True
      with Some have not_image: "\<not> is_image_item item"
        by (simp add: is_image_item_def)
      show ?thesis
      proof (cases "item_text item")
        case None
        with Some True show ?thesis by simp
      next
        case (Some v)
        from Cons.IH [OF Cons.prems, of calls "processed_content @ [TextBlock v]"]
        show ?thesis
          using \<open>item_type item = Some t\<close> True Some not_image by simp
      qed
    next
      case not_text: False
      show ?thesis
      proof (cases "t = PStr ''image_url''")
        case True
        with Some have is_image: "is_image_item item"
          by (simp add: is_image_item_def)
        show ?thesis
        proof (cases "20 \<le> image_count")
          case True
          with Some \<open>t = PStr ''image_url''\<close> show ?thesis by simp
        next
          case below: False
          then have diff: "20 - image_count = Suc (20 - (image_count + 1))"
            by simp
          show ?thesis
          proof (cases "item_image_url item")
            case None
            with Some True below show ?thesis by simp
          next
            case (Some img)
            obtain c r where pi: "process_image w img = (c, r)"
              by (cases "process_image w img")
            have ic: "image_calls w item = c"
              by (simp add: image_calls_def Some pi)
            show ?thesis
            proof (cases r)
              case (Inl e)
              have "fst (content_loop w (item # rest) (calls, processed_content, image_count)) =
                      calls @ c"
                using \<open>item_type item = Some t\<close> True below Some pi Inl by simp
              moreover have "prefix c (concat (map (image_calls w)
                  (take (20 - image_count) (filter is_image_item (item # rest)))))"
                using is_image ic by (simp add: diff)
              ultimately show ?thesis by blast
            next
              case (Inr b)
              from below have "image_count + 1 \<le> 20" by simp
              from Cons.IH [OF this, of "calls @ c" "processed_content @ [b]"]
              obtain extra where
                e1: "fst (content_loop w rest (calls @ c, processed_content @ [b], image_count + 1)) =
                       (calls @ c) @ extra"
                and e2: "prefix extra (concat (map (image_calls w)
                       (take (20 - (image_count + 1)) (filter is_image_item rest))))"
                by blast
              have "fst (content_loop w (item # rest) (calls, processed_content, image_count)) =
                      calls @ (c @ extra)"
                using \<open>item_type item = Some t\<close> True below Some pi Inr e1 by simp
              moreover have "prefix (c @ extra) (concat (map (image_calls w)
                  (take (20 - image_count) (filter is_image_item (item # rest)))))"
                using is_image ic e2 by (simp add: diff)
              ultimately show ?thesis by blast
            qed
          qed
        qed
      next
        case False
        with Some not_text have not_image: "\<not> is_image_item item"
          by (simp add: is_image_item_def)
        from Cons.IH [OF Cons.prems, of calls processed_content]
        show ?thesis
          using Some not_text False not_image by simp
      qed
    qed
  qed
qed

lemma message_content_Inr:
  assumes "message_content w m calls image_count = (calls', Inr (blocks, n))"
      and "image_count \<le> 20"
  shows "n = image_count + length (filter is_image_item (content_items m)) \<and> n \<le> 20
       \<and> calls' = calls @ concat (map (image_calls w) (filter is_image_item (content_items m)))"
proof (cases "msg_content m")
  case None
  with assms show ?thesis by (simp add: message_content_def content_items_def)
next
  case (Some c)
  show ?thesis
  proof (cases c)
    case (ContentList items)
    with Some assms(1) have "content_loop w items (calls, [], image_count) = (calls', Inr (blocks, n))"
      by (simp add: message_content_def)
    from content_loop_Inr [OF this assms(2)] Some ContentList show ?thesis
      by (simp add: content_items_def)
  next
    case (ContentValue v)
    with Some assms show ?thesis by (simp add: message_content_def content_items_def)
  qed
qed

lemma message_content_trace:
  assumes "image_count \<le> 20"
  shows "\<exists>extra. fst (message_content w m calls image_count) = calls @ extra
     \<and> prefix extra
          (concat (map (image_calls w)
             (take (20 - image_count) (filter is_image_item (content_items m)))))"
proof (cases "msg_content m")
  case None
  then show ?thesis by (simp add: message_content_def)
next
  case (Some c)
  show ?thesis
  proof (cases c)
    case (ContentList items)
    from content_loop_trace [OF assms, of w items calls "[]"] Some ContentList show ?thesis
      by (simp add: message_content_def content_items_def)
  next
    case (ContentValue v)
    with Some show ?thesis by (simp add: message_content_def)
  qed
qed

lemma message_loop_Inr:
  "message_loop w msgs (calls, processed_messages, image_count) = (calls', Inr (result, n)) \<Longrightarrow>
   image_count \<le> 20 \<Longrightarrow>
   n = image_count + length (image_items msgs) \<and> n \<le> 20"
proof (induction msgs arbitrary: calls processed_messages image_count)
  case Nil
  then show ?case by (simp add: image_items_def)
next
  case (Cons m rest)
  obtain calls1 r1 where mc: "message_content w m calls image_count = (calls1, r1)"
    by (cases "message_content w m calls image_count")
  with Cons.prems(1) obtain blocks n1 where r1: "r1 = Inr (blocks, n1)"
    by (cases r1) auto
  from message_content_Inr [OF mc [unfolded r1] Cons.prems(2)]
  have n1: "n1 = image_count + length (filter is_image_item (content_items m))" and "n1 \<le> 20"
    by simp_all
  from Cons.prems(1) mc r1 obtain r where
    "message_loop w rest (calls1, processed_messages @ [\<lparr>role = r, content = blocks\<rparr>], n1) =
       (calls', Inr (result, n))"
    by (cases "msg_role m") simp_all
  from Cons.IH [OF this \<open>n1 \<le> 20\<close>] n1 show ?case
    by (simp add: image_items_Cons)
qed

lemma message_loop_trace:
  "image_count \<le> 20 \<Longrightarrow>
   \<exists>extra. fst (message_loop w msgs (calls, processed_messages, image_count)) = calls @ extra
     \<and> prefix extra
          (concat (map (image_calls w) (take (20 - image_count) (image_items msgs))))"
proof (induction msgs arbitrary: calls processed_messages image_count)
  case Nil
  then show ?case by simp
next
  case (Cons m rest)
  let ?imgs = "filter is_image_item (content_items m)"
  let ?all = "concat (map (image_calls w) (take (20 - image_count) (image_items (m # rest))))"
  obtain calls1 r1 where mc: "message_content w m calls image_count = (calls1, r1)"
    by (cases "message_content w m calls image_count")
  from message_content_trace [OF Cons.prems, of w m calls] mc obtain extra1 where
    calls1: "calls1 = calls @ extra1"
    and pre1: "prefix extra1 (concat (map (image_calls w) (take (20 - image_count) ?imgs)))"
    by auto
  have "prefix (concat (map (image_calls w) (take (20 - image_count) ?imgs))) ?all"
    by (simp add: image_items_Cons)
  with pre1 have pre1_all: "prefix extra1 ?all"
    by (rule prefix_order.trans)
  show ?case
  proof (cases r1)
    case (Inl e)
    with mc calls1 have "fst (message_loop w (m # rest) (calls, processed_messages, image_count)) =
        calls @ extra1"
      by simp
    with pre1_all show ?thesis by blast
  next
    case (Inr br)
    obtain blocks n1 where br: "br = (blocks, n1)"
      by (cases br)
    from message_content_Inr [OF mc [unfolded Inr br] Cons.prems]
    have n1: "n1 = image_count + length ?imgs" and n1_cap: "n1 \<le> 20"
      and extra1: "calls1 = calls @ concat (map (image_calls w) ?imgs)"
      by simp_all
    from n1 n1_cap have split: "take (20 - image_count) (image_items (m # rest)) =
        ?imgs @ take (20 - n1) (image_items rest)"
      by (simp add: image_items_Cons)
    show ?thesis
    proof (cases "msg_role m")
      case None
      with mc Inr br calls1
      have "fst (message_loop w (m # rest) (calls, processed_messages, image_count)) =
          calls @ extra1"
        by simp
      with pre1_all show ?thesis by blast
    next
      case (Some r)
      from Cons.IH [OF n1_cap, of calls1 "processed_messages @ [\<lparr>role = r, content = blocks\<rparr>]"]
      obtain extra2 where
        e1: "fst (message_loop w rest
                (calls1, processed_messages @ [\<lparr>role = r, content = blocks\<rparr>], n1)) =
             calls1 @ extra2"
        and e2: "prefix extra2 (concat (map (image_calls w) (take (20 - n1) (image_items rest))))"
        by blast
      have "fst (message_loop w (m # rest) (calls, processed_messages, image_count)) =
          calls @ (concat (map (image_calls w) ?imgs) @ extra2)"
        using mc Inr br Some e1 extra1 by simp
      moreover have "prefix (concat (map (image_calls w) ?imgs) @ extra2) ?all"
        using e2 by (simp add: split)
      ultimately show ?thesis by blast
    qed
  qed
qed

lemma content_loop_quota:
  assumes "list_all well_formed_item items"
      and "list_all (resolves w) (take (20 - image_count) (filter is_image_item items))"
      and "image_count \<le> 20"
      and "20 < image_count + length (filter is_image_item items)"
  shows "content_loop w items (calls, processed_content, image_count) =
           (calls @ concat (map (image_calls w)
                       (take (20 - image_count) (filter is_image_item items))),
            Inl (ValueError ''Maximum of 20 images per API call exceeded''))"
  using assms
proof (induction items arbitrary: calls processed_content image_count)
  case Nil
  then show ?case by simp
next
  case (Cons item rest)
  from Cons.prems(1) have wf: "well_formed_item item" and wf_rest: "list_all well_formed_item rest"
    by simp_all
  show ?case
  proof (cases "is_image_item item")
    case True
    then have ty: "item_type item = Some (PStr ''image_url'')"
      by (simp add: is_image_item_def)
    show ?thesis
    proof (cases "20 \<le> image_count")
      case True
      then show ?thesis by (simp add: ty)
    next
      case below: False
      then have diff: "20 - image_count = Suc (20 - (image_count + 1))"
        by simp
      from Cons.prems(2) True have res: "resolves w item"
        and res_rest: "list_all (resolves w)
                         (take (20 - (image_count + 1)) (filter is_image_item rest))"
        by (simp_all add: diff)
      from res obtain img c b where img: "item_image_url item = Some img"
        and pi: "process_image w img = (c, Inr b)"
        by (cases "item_image_url item"; cases "process_image w (the (item_image_url item))")
           (auto simp: resolves_def split: sum.splits)
      from below have cap: "image_count + 1 \<le> 20"
        by simp
      from Cons.prems(4) True have over: "20 < (image_count + 1) + length (filter is_image_item rest)"
        by simp
      have "content_loop w (item # rest) (calls, processed_content, image_count) =
              content_loop w rest (calls @ c, processed_content @ [b], image_count + 1)"
        using below by (simp add: ty img pi)
      also have "\<dots> = ((calls @ c) @ concat (map (image_calls w)
                      (take (20 - (image_count + 1)) (filter is_image_item rest))),
              Inl (ValueError ''Maximum of 20 images per API call exceeded''))"
        by (intro Cons.IH wf_rest res_rest cap over)
      finally have "content_loop w (item # rest) (calls, processed_content, image_count) =
          ((calls @ c) @ concat (map (image_calls w)
                      (take (20 - (image_count + 1)) (filter is_image_item rest))),
              Inl (ValueError ''Maximum of 20 images per API call exceeded''))" .
      moreover have "image_calls w item = c"
        by (simp add: image_calls_def img pi)
      ultimately show ?thesis
        using True by (simp add: diff)
    qed
  next
    case False
    have "\<exists>pc'. content_loop w (item # rest) (calls, processed_content, image_count) =
              content_loop w rest (calls, pc', image_count)"
    proof (cases "is_text_item item")
      case True
      with wf obtain v where "item_text item = Some v"
        by (auto simp: well_formed_item_def)
      with True have "content_loop w (item # rest) (calls, processed_content, image_count) =
          content_loop w rest (calls, processed_content @ [TextBlock v], image_count)"
        by (simp add: is_text_item_def)
      then show ?thesis by blast
    next
      case not_text: False
      with False wf obtain t where "item_type item = Some t"
        and "t \<noteq> PStr ''text''" and "t \<noteq> PStr ''image_url''"
        by (auto simp: well_formed_item_def is_text_item_def is_image_item_def)
      then have "content_loop w (item # rest) (calls, processed_content, image_count) =
          content_loop w rest (calls, processed_content, image_count)"
        by simp
      then show ?thesis by blast
    qed
    then obtain pc' where
      "content_loop w (item # rest) (calls, processed_content, image_count) =
         content_loop w rest (calls, pc', image_count)"
      by blast
    also have "\<dots> = (calls @ concat (map (image_calls w)
                      (take (20 - image_count) (filter is_image_item rest))),
              Inl (ValueError ''Maximum of 20 images per API call exceeded''))"
      using Cons.prems(2,3,4) False by (intro Cons.IH wf_rest) simp_all
    finally show ?thesis
      using False by simp
  qed
qed

lemma message_loop_quota:
  assumes "well_formed msgs"
      and "list_all (resolves w) (take (20 - image_count) (image_items msgs))"
      and "image_count \<le> 20"
      and "20 < image_count + length (image_items msgs)"
  shows "message_loop w msgs (calls, processed_messages, image_count) =
           (calls @ concat (map (image_calls w) (take (20 - image_count) (image_items msgs))),
            Inl (ValueError ''Maximum of 20 images per API call exceeded''))"
  using assms
proof (induction msgs arbitrary: calls processed_messages image_count)
  case Nil
  then show ?case by (simp add: image_items_def)
next
  case (Cons m rest)
  let ?imgs = "filter is_image_item (content_items m)"
  from Cons.prems(1) obtain r where r: "msg_role m = Some r"
    and wf_m: "list_all well_formed_item (content_items m)"
    and wf_rest: "well_formed rest"
    by (auto simp: well_formed_def)
  show ?case
  proof (cases "image_count + length ?imgs \<le> 20")
    case True
    then have split: "take (20 - image_count) (image_items (m # rest)) =
        ?imgs @ take (20 - (image_count + length ?imgs)) (image_items rest)"
      by (simp add: image_items_Cons)
    with Cons.prems(2) have res_m: "list_all (resolves w) ?imgs"
      and res_rest: "list_all (resolves w)
                       (take (20 - (image_count + length ?imgs)) (image_items rest))"
      by simp_all
    from Cons.prems(4) have over: "20 < (image_count + length ?imgs) + length (image_items rest)"
      by (simp add: image_items_Cons)
    have "message_loop w (m # rest) (calls, processed_messages, image_count) =
        message_loop w rest
          (calls @ concat (map (image_calls w) ?imgs),
           processed_messages @ [\<lparr>role = r, content =
              (case msg_content m of
                 Some (ContentList items) \<Rightarrow> List.map_filter (item_block w) items
               | Some (ContentValue v) \<Rightarrow> [TextBlock v]
               | None \<Rightarrow> [TextBlock (PStr [])])\<rparr>],
           image_count + length ?imgs)"
      by (simp add: message_content_success [OF wf_m res_m True] r)
    also have "\<dots> = ((calls @ concat (map (image_calls w) ?imgs)) @
          concat (map (image_calls w)
            (take (20 - (image_count + length ?imgs)) (image_items rest))),
          Inl (ValueError ''Maximum of 20 images per API call exceeded''))"
      by (intro Cons.IH wf_rest res_rest True over)
    finally show ?thesis
      by (simp add: split)
  next
    case False
    then have split: "take (20 - image_count) (image_items (m # rest)) =
        take (20 - image_count) ?imgs"
      by (simp add: image_items_Cons)
    from False have "?imgs \<noteq> []"
      using Cons.prems(3) by auto
    then obtain items where items: "msg_content m = Some (ContentList items)"
      by (cases "msg_content m"; cases "the (msg_content m)") (auto simp: content_items_def)
    then have ci: "content_items m = items"
      by (simp add: content_items_def)
    from Cons.prems(2) have res_m: "list_all (resolves w) (take (20 - image_count) ?imgs)"
      by (simp add: split)
    from False have over: "20 < image_count + length ?imgs"
      by simp
    from content_loop_quota [OF wf_m res_m Cons.prems(3) over, of calls "[]"]
    have "message_content w m calls image_count =
        (calls @ concat (map (image_calls w) (take (20 - image_count) ?imgs)),
         Inl (ValueError ''Maximum of 20 images per API call exceeded''))"
      by (simp add: message_content_def items ci)
    then show ?thesis
      by (simp add: split)
  qed
qed

lemma content_loop_drop_others:
  "content_loop w (filter (\<lambda>i. \<not> other_type i) items) (calls, processed_content, image_count) =
   content_loop w items (calls, processed_content, image_count)"
proof (induction items arbitrary: calls processed_content image_count)
  case Nil
  then show ?case by simp
next
  case (Cons item rest)
  show ?case
  proof (cases "other_type item")
    case True
    then obtain t where "item_type item = Some t" "t \<noteq> PStr ''text''" "t \<noteq> PStr ''image_url''"
      by (auto simp: other_type_def split: option.splits)
    with True Cons.IH show ?thesis by simp
  next
    case False
    then have keep: "filter (\<lambda>i. \<not> other_type i) (item # rest) =
        item # filter (\<lambda>i. \<not> other_type i) rest"
      by simp
    show ?thesis
      unfolding keep
      by (simp add: Cons.IH split: option.splits prod.splits sum.splits)
  qed
qed

lemma message_loop_drop_others:
  "message_loop w (drop_other_items msgs) (calls, processed_messages, image_count) =
   message_loop w msgs (calls, processed_messages, image_count)"
proof (induction msgs arbitrary: calls processed_messages image_count)
  case Nil
  then show ?case by (simp add: drop_other_items_def)
next
  case (Cons m rest)
  define m' where "m' =
     (case msg_content m of
        Some (ContentList items) \<Rightarrow>
          m\<lparr>msg_content := Some (ContentList (filter (\<lambda>i. \<not> other_type i) items))\<rparr>
      | _ \<Rightarrow> m)"
  have unfold: "drop_other_items (m # rest) = m' # drop_other_items rest"
    by (simp add: drop_other_items_def m'_def)
  have same_role: "msg_role m' = msg_role m"
    by (simp add: m'_def split: option.splits content.splits)
  have same_content: "message_content w m' calls image_count = message_content w m calls image_count"
    by (simp add: m'_def message_content_def content_loop_drop_others
          split: option.splits content.splits)
  show ?case
    unfolding unfold
    by (simp add: same_role same_content Cons.IH split: prod.splits sum.splits option.splits)
qed

lemma message_loop_text_only:
  "message_loop w (map text_message texts) (calls, processed_messages, image_count) =
     (calls,
      Inr (processed_messages
             @ map (\<lambda>rs. \<lparr>role = fst rs, content = [TextBlock (PStr (snd rs))]\<rparr>) texts,
           image_count))"
  by (induction texts arbitrary: processed_messages)
     (simp_all add: text_message_def message_content_def)

lemma process_image_block:
  "process_image w img = (c, Inr b) \<Longrightarrow> \<exists>format data. b = ImageBlock format data"
  by (auto simp: process_image_def image_block_def Let_def
        split: option.splits if_splits list.splits sum.splits)

lemma item_block_image:
  assumes "is_image_item item" and "resolves w item"
  shows "\<exists>format data. item_block w item = Some (ImageBlock format data)"
proof -
  from assms(2) obtain img c b where img: "item_image_url item = Some img"
    and pi: "process_image w img = (c, Inr b)"
    by (cases "item_image_url item"; cases "process_image w (the (item_image_url item))")
       (auto simp: resolves_def split: sum.splits)
  from process_image_block [OF pi] obtain format data where "b = ImageBlock format data"
    by blast
  with assms(1) img pi text_not_image [of item] show ?thesis
    by (auto simp: item_block_def)
qed

lemma process_image_inline:
  assumes "url img = Some u" and "prefix ''data:image'' u" and "CHR '','' \<in> set u"
      and "str_split CHR '','' u = meta # b64 # tail"
      and "b64decode w b64 = Inr decoded"
  shows "process_image w img =
           ([B64Decode b64],
            Inr (ImageBlock (if suffix ''.png'' u then ''png'' else ''jpeg'') decoded))"
  using assms by (simp add: process_image_def image_block_def read_def)

text \<open>
  Claim C9, as the code has it. Flat text messages normalize to one text block each, with
  the role and the string as given and in the order given, and with no call to a
  collaborator. A well-formed list whose image items all resolve, at most twenty of them,
  normalizes to what the specification describes (\<open>normalize_spec\<close>): a text item gives a
  text block with its text, an image item the image block the resolver returns for it, an
  item of any other type nothing. An inline image item whose base64 text decodes does
  resolve, with one decode, to the decoded bytes and the format \<^verbatim>\<open>png\<close> when the reference
  ends with \<^verbatim>\<open>.png\<close>, \<^verbatim>\<open>jpeg\<close> otherwise. Whatever the list, removing the items of other
  types changes neither the result nor the calls.
\<close>

theorem normalization_blocks:
  "message_loop w (map text_message texts) ([], [], 0) =
     ([], Inr (map (\<lambda>rs. \<lparr>role = fst rs, content = [TextBlock (PStr (snd rs))]\<rparr>) texts, 0))
   \<and> (well_formed msgs \<and> list_all (resolves w) (image_items msgs)
        \<and> length (image_items msgs) \<le> 20 \<longrightarrow>
        snd (message_loop w msgs ([], [], 0)) =
          Inr (normalize_spec w msgs, length (image_items msgs)))
   \<and> (is_text_item item \<and> item_text item = Some v \<longrightarrow> item_block w item = Some (TextBlock v))
   \<and> (is_image_item item \<and> resolves w item \<longrightarrow>
        (\<exists>format data. item_block w item = Some (ImageBlock format data)))
   \<and> (is_image_item item \<and> item_image_url item = Some img \<and> url img = Some u
        \<and> prefix ''data:image'' u \<and> CHR '','' \<in> set u
        \<and> str_split CHR '','' u = meta # b64 # tail \<and> b64decode w b64 = Inr decoded \<longrightarrow>
        resolves w item \<and> image_calls w item = [B64Decode b64]
        \<and> item_block w item =
            Some (ImageBlock (if suffix ''.png'' u then ''png'' else ''jpeg'') decoded))
   \<and> (other_type item \<longrightarrow> item_block w item = None)
   \<and> message_loop w (drop_other_items msgs) ([], [], 0) = message_loop w msgs ([], [], 0)"
proof -
  have flat: "message_loop w (map text_message texts) ([], [], 0) =
     ([], Inr (map (\<lambda>rs. \<lparr>role = fst rs, content = [TextBlock (PStr (snd rs))]\<rparr>) texts, 0))"
    using message_loop_text_only [of w texts "[]" "[]" 0] by simp
  have mixed: "well_formed msgs \<and> list_all (resolves w) (image_items msgs)
        \<and> length (image_items msgs) \<le> 20 \<longrightarrow>
        snd (message_loop w msgs ([], [], 0)) =
          Inr (normalize_spec w msgs, length (image_items msgs))"
    using message_loop_success [of msgs w 0 "[]" "[]"] by simp
  have text_case: "is_text_item item \<and> item_text item = Some v \<longrightarrow>
      item_block w item = Some (TextBlock v)"
    by (simp add: item_block_def)
  have image_case: "is_image_item item \<and> resolves w item \<longrightarrow>
      (\<exists>format data. item_block w item = Some (ImageBlock format data))"
    using item_block_image by blast
  have inline_case: "is_image_item item \<and> item_image_url item = Some img \<and> url img = Some u
        \<and> prefix ''data:image'' u \<and> CHR '','' \<in> set u
        \<and> str_split CHR '','' u = meta # b64 # tail \<and> b64decode w b64 = Inr decoded \<longrightarrow>
        resolves w item \<and> image_calls w item = [B64Decode b64]
        \<and> item_block w item =
            Some (ImageBlock (if suffix ''.png'' u then ''png'' else ''jpeg'') decoded)"
  proof
    assume h: "is_image_item item \<and> item_image_url item = Some img \<and> url img = Some u
        \<and> prefix ''data:image'' u \<and> CHR '','' \<in> set u
        \<and> str_split CHR '','' u = meta # b64 # tail \<and> b64decode w b64 = Inr decoded"
    then have run: "process_image w img =
        ([B64Decode b64],
         Inr (ImageBlock (if suffix ''.png'' u then ''png'' else ''jpeg'') decoded))"
      by (intro process_image_inline) simp_all
    from h have "\<not> is_text_item item"
      using text_not_image by blast
    with h run show "resolves w item \<and> image_calls w item = [B64Decode b64]
        \<and> item_block w item =
            Some (ImageBlock (if suffix ''.png'' u then ''png'' else ''jpeg'') decoded)"
      by (simp add: resolves_def image_calls_def item_block_def)
  qed
  have other_case: "other_type item \<longrightarrow> item_block w item = None"
    by (auto simp: other_type_def item_block_def is_text_item_def is_image_item_def
          split: option.splits)
  from flat mixed text_case image_case inline_case other_case
    message_loop_drop_others [of w msgs "[]" "[]" 0]
  show ?thesis
    by blast
qed

lemma good_image_resolves:
  "process_image quiet_world \<lparr>url = Some ''data:image/jpeg;base64,aGk=''\<rparr> =
     ([B64Decode ''aGk=''], Inr (ImageBlock ''jpeg'' [0x68, 0x69]))"
  by (simp add: process_image_def image_block_def read_def quiet_world_def suffix_to_prefix)

lemma bad_image_fails:
  "process_image quiet_world \<lparr>url = Some ''data:image/jpeg;base64,A''\<rparr> =
     ([B64Decode ''A''], Inl invalid_base64)"
  by (simp add: process_image_def image_block_def read_def quiet_world_def)

lemma good_image_facts:
  "is_image_item good_image" "\<not> is_text_item good_image" "well_formed_item good_image"
  "resolves quiet_world good_image" "image_calls quiet_world good_image = [B64Decode ''aGk='']"
  "item_block quiet_world good_image = Some (ImageBlock ''jpeg'' [0x68, 0x69])"
  by (simp_all add: good_image_def image_item_def is_image_item_def is_text_item_def
      well_formed_item_def resolves_def image_calls_def item_block_def good_image_resolves)

lemma concat_replicate_single: "concat (replicate n [x]) = replicate n x"
  by (induction n) simp_all

theorem normalization_blocks_witness:
  "message_loop quiet_world (map text_message [(''user'', ''hello''), (''assistant'', ''hi'')])
       ([], [], 0) =
     ([], Inr ([\<lparr>role = ''user'', content = [TextBlock (PStr ''hello'')]\<rparr>,
                \<lparr>role = ''assistant'', content = [TextBlock (PStr ''hi'')]\<rparr>], 0))
   \<and> well_formed mixed_message
   \<and> list_all (resolves quiet_world) (image_items mixed_message)
   \<and> length (image_items mixed_message) \<le> 20
   \<and> snd (message_loop quiet_world mixed_message ([], [], 0)) =
       Inr ([\<lparr>role = ''user'',
               content = [TextBlock (PStr ''look''), ImageBlock ''jpeg'' [0x68, 0x69]]\<rparr>], 1)
   \<and> is_text_item (text_item ''look'')
   \<and> item_block quiet_world (text_item ''look'') = Some (TextBlock (PStr ''look''))
   \<and> is_image_item good_image
   \<and> resolves quiet_world good_image
   \<and> (\<exists>format data. item_block quiet_world good_image = Some (ImageBlock format data))
   \<and> item_image_url good_image = Some \<lparr>url = Some ''data:image/jpeg;base64,aGk=''\<rparr>
   \<and> prefix ''data:image'' ''data:image/jpeg;base64,aGk=''
   \<and> CHR '','' \<in> set ''data:image/jpeg;base64,aGk=''
   \<and> str_split CHR '','' ''data:image/jpeg;base64,aGk='' = ''data:image/jpeg;base64'' # ''aGk='' # []
   \<and> b64decode quiet_world ''aGk='' = Inr [0x68, 0x69]
   \<and> image_calls quiet_world good_image = [B64Decode ''aGk='']
   \<and> item_block quiet_world good_image = Some (ImageBlock ''jpeg'' [0x68, 0x69])
   \<and> other_type \<lparr>item_type = Some (PStr ''video_url''), item_text = None, item_image_url = None\<rparr>
   \<and> item_block quiet_world
        \<lparr>item_type = Some (PStr ''video_url''), item_text = None, item_image_url = None\<rparr> = None"
proof -
  let ?video = "\<lparr>item_type = Some (PStr ''video_url''), item_text = None, item_image_url = None\<rparr>"
  have items: "content_items (user_items [text_item ''look'', good_image, ?video]) =
      [text_item ''look'', good_image, ?video]"
    by (simp add: content_items_def user_items_def)
  have tfacts: "is_text_item (text_item ''look'')" "\<not> is_image_item (text_item ''look'')"
    "item_text (text_item ''look'') = Some (PStr ''look'')" "well_formed_item (text_item ''look'')"
    by (simp_all add: text_item_def is_text_item_def is_image_item_def well_formed_item_def)
  have vfacts: "other_type ?video" "\<not> is_text_item ?video" "\<not> is_image_item ?video"
    "well_formed_item ?video"
    by (simp_all add: other_type_def is_text_item_def is_image_item_def well_formed_item_def)
  have blocks: "item_block quiet_world (text_item ''look'') = Some (TextBlock (PStr ''look''))"
    "item_block quiet_world ?video = None"
    by (simp_all add: item_block_def tfacts vfacts)
  have imgs: "image_items mixed_message = [good_image]"
    by (simp add: image_items_def mixed_message_def items tfacts vfacts good_image_facts)
  have wf: "well_formed mixed_message"
    by (simp add: well_formed_def mixed_message_def items tfacts vfacts good_image_facts)
       (simp add: user_items_def)
  have res: "list_all (resolves quiet_world) (image_items mixed_message)"
    by (simp add: imgs good_image_facts)
  have len: "length (image_items mixed_message) \<le> 20"
    by (simp add: imgs)
  have spec: "normalize_spec quiet_world mixed_message =
      [\<lparr>role = ''user'',
         content = [TextBlock (PStr ''look''), ImageBlock ''jpeg'' [0x68, 0x69]]\<rparr>]"
    by (simp add: normalize_spec_def mixed_message_def user_items_def map_filter_simps
        blocks good_image_facts)
  note t1 = normalization_blocks
    [where w = quiet_world and texts = "[(''user'', ''hello''), (''assistant'', ''hi'')]"
       and msgs = mixed_message and item = "text_item ''look''" and v = "PStr ''look''"]
  note t2 = normalization_blocks
    [where w = quiet_world and msgs = mixed_message and item = good_image
       and img = "\<lparr>url = Some ''data:image/jpeg;base64,aGk=''\<rparr>"
       and u = "''data:image/jpeg;base64,aGk=''" and meta = "''data:image/jpeg;base64''"
       and ?b64.0 = "''aGk=''" and tail = "[]" and decoded = "[0x68, 0x69]"]
  note t3 = normalization_blocks [where w = quiet_world and msgs = mixed_message and item = ?video]
  have inline: "item_image_url good_image = Some \<lparr>url = Some ''data:image/jpeg;base64,aGk=''\<rparr>"
    "url \<lparr>url = Some ''data:image/jpeg;base64,aGk=''\<rparr> = Some ''data:image/jpeg;base64,aGk=''"
    "prefix ''data:image'' ''data:image/jpeg;base64,aGk=''"
    "CHR '','' \<in> set ''data:image/jpeg;base64,aGk=''"
    "str_split CHR '','' ''data:image/jpeg;base64,aGk='' = ''data:image/jpeg;base64'' # ''aGk='' # []"
    "b64decode quiet_world ''aGk='' = Inr [0x68, 0x69]"
    by (simp_all add: good_image_def image_item_def quiet_world_def)
  have jpeg: "\<not> suffix ''.png'' ''data:image/jpeg;base64,aGk=''"
    by (simp add: suffix_to_prefix)
  from t2 good_image_facts(1) inline have
    "image_calls quiet_world good_image = [B64Decode ''aGk='']
     \<and> item_block quiet_world good_image =
         Some (ImageBlock (if suffix ''.png'' ''data:image/jpeg;base64,aGk='' then ''png'' else ''jpeg'')
                 [0x68, 0x69])"
    by blast
  with jpeg have decoded: "image_calls quiet_world good_image = [B64Decode ''aGk='']"
    "item_block quiet_world good_image = Some (ImageBlock ''jpeg'' [0x68, 0x69])"
    by simp_all
  from t1 have flat: "message_loop quiet_world
      (map text_message [(''user'', ''hello''), (''assistant'', ''hi'')]) ([], [], 0) =
     ([], Inr ([\<lparr>role = ''user'', content = [TextBlock (PStr ''hello'')]\<rparr>,
                \<lparr>role = ''assistant'', content = [TextBlock (PStr ''hi'')]\<rparr>], 0))"
    by simp
  from t1 wf res len have "snd (message_loop quiet_world mixed_message ([], [], 0)) =
      Inr (normalize_spec quiet_world mixed_message, length (image_items mixed_message))"
    by blast
  then have mixed: "snd (message_loop quiet_world mixed_message ([], [], 0)) =
       Inr ([\<lparr>role = ''user'',
               content = [TextBlock (PStr ''look''), ImageBlock ''jpeg'' [0x68, 0x69]]\<rparr>], 1)"
    by (simp only: spec imgs list.size) simp
  from t1 tfacts have tb: "item_block quiet_world (text_item ''look'') = Some (TextBlock (PStr ''look''))"
    by blast
  from t2 good_image_facts have ib:
    "\<exists>format data. item_block quiet_world good_image = Some (ImageBlock format data)"
    by blast
  from t3 vfacts have vb: "item_block quiet_world ?video = None"
    by blast
  from flat wf res len mixed tfacts(1) tb good_image_facts(1,4) ib
    inline(1,3,4,5,6) decoded vfacts(1) vb
  show ?thesis
    by blast
qed

text \<open>
  Claim C9 as stated fails: the image item of \<open>mixed_bad_message\<close> holds malformed base64
  text; its decode raises, no image block is made of it, and normalization ends with that
  error, which \<^verbatim>\<open>pipe\<close> returns as an error string.
\<close>

theorem mixed_bad_image_counterexample:
  "image_items mixed_bad_message = [bad_image]
   \<and> message_loop quiet_world mixed_bad_message ([], [], 0) =
       ([B64Decode ''A''], Inl invalid_base64)
   \<and> pipe quiet_world [] ''look'' ''model-A'' mixed_bad_message default_body =
       ([B64Decode ''A''], Inr (PipeStr (''Error: '' @ exn_str invalid_base64)))"
proof -
  have bad: "item_type bad_image = Some (PStr ''image_url'')"
    "item_image_url bad_image = Some \<lparr>url = Some ''data:image/jpeg;base64,A''\<rparr>"
    "is_image_item bad_image"
    by (simp_all add: bad_image_def image_item_def is_image_item_def)
  have txt_item: "item_type (text_item ''look'') = Some (PStr ''text'')"
    "item_text (text_item ''look'') = Some (PStr ''look'')"
    "\<not> is_image_item (text_item ''look'')"
    by (simp_all add: text_item_def is_image_item_def)
  have imgs: "image_items mixed_bad_message = [bad_image]"
    by (simp add: image_items_def mixed_bad_message_def content_items_def user_items_def
        bad txt_item)
  have run: "message_loop quiet_world mixed_bad_message ([], [], 0) =
      ([B64Decode ''A''], Inl invalid_base64)"
    by (simp add: mixed_bad_message_def user_items_def message_content_def bad txt_item
        bad_image_fails)
  have "pop_system_message quiet_world mixed_bad_message = Inr (PNone, mixed_bad_message)"
    by (simp add: quiet_world_def)
  then have "pipe quiet_world [] ''look'' ''model-A'' mixed_bad_message default_body =
      ([B64Decode ''A''], Inr (PipeStr (''Error: '' @ exn_str invalid_base64)))"
    using run by (simp add: pipe_def pipe_try_def)
  with imgs run show ?thesis
    by simp
qed

lemma pipe_error_string:
  assumes "pop_system_message w raw = Inr (system_message, msgs)"
      and "message_loop w msgs ([], [], 0) = (calls, Inl e)"
  shows "pipe w pipelines user_message model_id raw body =
           (calls, Inr (PipeStr (''Error: '' @ exn_str e)))"
  using assms by (simp add: pipe_def pipe_try_def)

text \<open>
  Claim C7, as the code has it. A well-formed list whose image items all resolve and number
  at most twenty normalizes, with one fetch or decode per image, in order. A list with more
  than twenty image items never normalizes, and whatever the list the calls made are a
  prefix of those of its first twenty image items: a twenty-first image is never fetched
  or decoded. When the list is well formed and its first twenty image items resolve, the
  failure is the \<^verbatim>\<open>ValueError\<close> of the cap, raised after exactly the calls of those
  twenty, and \<^verbatim>\<open>pipe\<close> returns it as an error string.
\<close>

theorem image_cap:
  "(well_formed msgs \<and> list_all (resolves w) (image_items msgs)
      \<and> length (image_items msgs) \<le> 20 \<longrightarrow>
      message_loop w msgs ([], [], 0) =
        (concat (map (image_calls w) (image_items msgs)),
         Inr (normalize_spec w msgs, length (image_items msgs))))
   \<and> (20 < length (image_items msgs) \<longrightarrow> isl (snd (message_loop w msgs ([], [], 0))))
   \<and> prefix (fst (message_loop w msgs ([], [], 0)))
        (concat (map (image_calls w) (take 20 (image_items msgs))))
   \<and> (well_formed msgs \<and> list_all (resolves w) (take 20 (image_items msgs))
        \<and> 20 < length (image_items msgs) \<longrightarrow>
        message_loop w msgs ([], [], 0) =
          (concat (map (image_calls w) (take 20 (image_items msgs))),
           Inl (ValueError ''Maximum of 20 images per API call exceeded''))
        \<and> (pop_system_message w raw = Inr (system_message, msgs) \<longrightarrow>
             pipe w pipelines user_message model_id raw body =
               (concat (map (image_calls w) (take 20 (image_items msgs))),
                Inr (PipeStr ''Error: Maximum of 20 images per API call exceeded''))))"
proof -
  have at_most: "well_formed msgs \<and> list_all (resolves w) (image_items msgs)
      \<and> length (image_items msgs) \<le> 20 \<longrightarrow>
      message_loop w msgs ([], [], 0) =
        (concat (map (image_calls w) (image_items msgs)),
         Inr (normalize_spec w msgs, length (image_items msgs)))"
    using message_loop_success [of msgs w 0 "[]" "[]"] by simp
  have beyond: "20 < length (image_items msgs) \<longrightarrow> isl (snd (message_loop w msgs ([], [], 0)))"
  proof
    assume over: "20 < length (image_items msgs)"
    obtain calls r where run: "message_loop w msgs ([], [], 0) = (calls, r)"
      by (cases "message_loop w msgs ([], [], 0)")
    show "isl (snd (message_loop w msgs ([], [], 0)))"
    proof (cases r)
      case (Inl e)
      with run show ?thesis by simp
    next
      case (Inr res)
      obtain result n where "res = (result, n)"
        by (cases res)
      with run Inr have "message_loop w msgs ([], [], 0) = (calls, Inr (result, n))"
        by simp
      from message_loop_Inr [OF this] over show ?thesis
        by simp
    qed
  qed
  have trace: "prefix (fst (message_loop w msgs ([], [], 0)))
        (concat (map (image_calls w) (take 20 (image_items msgs))))"
    using message_loop_trace [of 0 w msgs "[]" "[]"] by auto
  have quota: "well_formed msgs \<and> list_all (resolves w) (take 20 (image_items msgs))
        \<and> 20 < length (image_items msgs) \<longrightarrow>
        message_loop w msgs ([], [], 0) =
          (concat (map (image_calls w) (take 20 (image_items msgs))),
           Inl (ValueError ''Maximum of 20 images per API call exceeded''))
        \<and> (pop_system_message w raw = Inr (system_message, msgs) \<longrightarrow>
             pipe w pipelines user_message model_id raw body =
               (concat (map (image_calls w) (take 20 (image_items msgs))),
                Inr (PipeStr ''Error: Maximum of 20 images per API call exceeded'')))"
  proof (intro impI conjI)
    assume h: "well_formed msgs \<and> list_all (resolves w) (take 20 (image_items msgs))
        \<and> 20 < length (image_items msgs)"
    then show run: "message_loop w msgs ([], [], 0) =
          (concat (map (image_calls w) (take 20 (image_items msgs))),
           Inl (ValueError ''Maximum of 20 images per API call exceeded''))"
      using message_loop_quota [of msgs w 0 "[]" "[]"] by simp
    assume "pop_system_message w raw = Inr (system_message, msgs)"
    from pipe_error_string [OF this run]
    show "pipe w pipelines user_message model_id raw body =
               (concat (map (image_calls w) (take 20 (image_items msgs))),
                Inr (PipeStr ''Error: Maximum of 20 images per API call exceeded''))"
      by (simp add: ValueError_def)
  qed
  from at_most beyond trace quota show ?thesis
    by blast
qed

lemma replicate_good_images:
  "image_items [user_items (replicate a good_image), user_items (replicate b good_image)] =
     replicate (a + b) good_image"
  by (simp add: image_items_def content_items_def user_items_def good_image_facts
        replicate_add)

lemma replicate_well_formed:
  "well_formed [user_items (replicate a good_image), user_items (replicate b good_image)]"
  by (simp add: well_formed_def content_items_def user_items_def list_all_iff good_image_facts)

theorem image_cap_witness:
  "well_formed twenty_images
   \<and> list_all (resolves quiet_world) (image_items twenty_images)
   \<and> length (image_items twenty_images) = 20
   \<and> message_loop quiet_world twenty_images ([], [], 0) =
       (replicate 20 (B64Decode ''aGk=''), Inr (normalize_spec quiet_world twenty_images, 20))
   \<and> well_formed twenty_one_images
   \<and> list_all (resolves quiet_world) (take 20 (image_items twenty_one_images))
   \<and> length (image_items twenty_one_images) = 21
   \<and> isl (snd (message_loop quiet_world twenty_one_images ([], [], 0)))
   \<and> message_loop quiet_world twenty_one_images ([], [], 0) =
       (replicate 20 (B64Decode ''aGk=''),
        Inl (ValueError ''Maximum of 20 images per API call exceeded''))
   \<and> pop_system_message quiet_world twenty_one_images = Inr (PNone, twenty_one_images)
   \<and> pipe quiet_world [] ''describe'' ''model-A'' twenty_one_images default_body =
       (replicate 20 (B64Decode ''aGk=''),
        Inr (PipeStr ''Error: Maximum of 20 images per API call exceeded''))"
proof -
  have imgs20: "image_items twenty_images = replicate 20 good_image"
    using replicate_good_images [of 10 10] by (simp add: twenty_images_def)
  have imgs21: "image_items twenty_one_images = replicate 21 good_image"
    using replicate_good_images [of 10 11] by (simp add: twenty_one_images_def)
  have wf20: "well_formed twenty_images"
    using replicate_well_formed [of 10 10] by (simp add: twenty_images_def)
  have wf21: "well_formed twenty_one_images"
    using replicate_well_formed [of 10 11] by (simp add: twenty_one_images_def)
  have res20: "list_all (resolves quiet_world) (image_items twenty_images)"
    by (simp add: imgs20 list_all_iff good_image_facts)
  have res21: "list_all (resolves quiet_world) (take 20 (image_items twenty_one_images))"
    by (simp add: imgs21 list_all_iff good_image_facts)
  have len20: "length (image_items twenty_images) = 20"
    by (simp add: imgs20)
  have len21: "length (image_items twenty_one_images) = 21"
    by (simp add: imgs21)
  have calls20: "concat (map (image_calls quiet_world) (image_items twenty_images)) =
      replicate 20 (B64Decode ''aGk='')"
    by (simp add: imgs20 good_image_facts concat_replicate_single)
  have calls21: "concat (map (image_calls quiet_world) (take 20 (image_items twenty_one_images))) =
      replicate 20 (B64Decode ''aGk='')"
    by (simp add: imgs21 good_image_facts concat_replicate_single)
  have pop: "pop_system_message quiet_world twenty_one_images = Inr (PNone, twenty_one_images)"
    by (simp add: quiet_world_def)
  note t20 = image_cap [of twenty_images quiet_world]
  note t21 = image_cap [of twenty_one_images quiet_world twenty_one_images PNone
                          "[]" "''describe''" "''model-A''" default_body]
  from t20 wf20 res20 len20 have "message_loop quiet_world twenty_images ([], [], 0) =
      (concat (map (image_calls quiet_world) (image_items twenty_images)),
       Inr (normalize_spec quiet_world twenty_images, length (image_items twenty_images)))"
    by simp
  then have run20: "message_loop quiet_world twenty_images ([], [], 0) =
      (replicate 20 (B64Decode ''aGk=''), Inr (normalize_spec quiet_world twenty_images, 20))"
    by (simp only: calls20 len20)
  from t21 len21 have fails21: "isl (snd (message_loop quiet_world twenty_one_images ([], [], 0)))"
    by simp
  from t21 wf21 res21 len21 have
    "message_loop quiet_world twenty_one_images ([], [], 0) =
       (concat (map (image_calls quiet_world) (take 20 (image_items twenty_one_images))),
        Inl (ValueError ''Maximum of 20 images per API call exceeded''))"
    and "pipe quiet_world [] ''describe'' ''model-A'' twenty_one_images default_body =
       (concat (map (image_calls quiet_world) (take 20 (image_items twenty_one_images))),
        Inr (PipeStr ''Error: Maximum of 20 images per API call exceeded''))"
    using pop by simp_all
  then have run21: "message_loop quiet_world twenty_one_images ([], [], 0) =
       (replicate 20 (B64Decode ''aGk=''),
        Inl (ValueError ''Maximum of 20 images per API call exceeded''))"
    and pipe21: "pipe quiet_world [] ''describe'' ''model-A'' twenty_one_images default_body =
       (replicate 20 (B64Decode ''aGk=''),
        Inr (PipeStr ''Error: Maximum of 20 images per API call exceeded''))"
    by (simp_all only: calls21)
  from wf20 res20 len20 run20 wf21 res21 len21 fails21 run21 pop pipe21 show ?thesis
    by blast
qed

text \<open>
  Claim C7 as stated fails: \<open>twenty_images_one_bad\<close> holds exactly twenty image items, the
  last with malformed base64 text; its decode raises, and normalization fails with that
  error after the twentieth decode was attempted.
\<close>

theorem twenty_images_counterexample:
  "length (image_items twenty_images_one_bad) = 20
   \<and> snd (message_loop quiet_world twenty_images_one_bad ([], [], 0)) = Inl invalid_base64"
proof -
  have items: "replicate 10 good_image = [good_image, good_image, good_image, good_image,
      good_image, good_image, good_image, good_image, good_image, good_image]"
    "replicate 9 good_image = [good_image, good_image, good_image, good_image,
      good_image, good_image, good_image, good_image, good_image]"
    by (simp_all add: numeral_eq_Suc)
  have good: "item_type good_image = Some (PStr ''image_url'')"
    "item_image_url good_image = Some \<lparr>url = Some ''data:image/jpeg;base64,aGk=''\<rparr>"
    by (simp_all add: good_image_def image_item_def)
  have bad: "item_type bad_image = Some (PStr ''image_url'')"
    "item_image_url bad_image = Some \<lparr>url = Some ''data:image/jpeg;base64,A''\<rparr>"
    "is_image_item bad_image"
    by (simp_all add: bad_image_def image_item_def is_image_item_def)
  have "length (image_items twenty_images_one_bad) = 20"
    by (simp add: image_items_def twenty_images_one_bad_def content_items_def user_items_def
        good_image_facts bad)
  moreover have "snd (message_loop quiet_world twenty_images_one_bad ([], [], 0)) =
      Inl invalid_base64"
    by (simp add: twenty_images_one_bad_def user_items_def message_content_def items good bad
        good_image_resolves bad_image_fails)
  ultimately show ?thesis
    by simp
qed

end
